theory Spec2Isabelle
  imports Complex_Main "HOL-Library.Sublist" "HOL-Library.AList"
begin

section \<open>JavaScript strings\<close>

text \<open>
  A JavaScript string is modelled as a \<^typ>\<open>string\<close>, one \<^typ>\<open>char\<close> per code unit, for code
  units below 256. \<open>String.prototype.startsWith\<close> is the prefix test; \<open>String.prototype.trim\<close>
  strips white space and line terminators from both ends (in this range: TAB, LF, VT, FF, CR,
  SPACE and NBSP).
\<close>

definition startsWith :: "string \<Rightarrow> string \<Rightarrow> bool" where
  "startsWith s p = prefix p s"

definition isWhiteSpace :: "char \<Rightarrow> bool" where
  "isWhiteSpace c = (of_char c \<in> {9, 10, 11, 12, 13, 32, 160 :: nat})"

definition trim :: "string \<Rightarrow> string" where
  "trim s = rev (dropWhile isWhiteSpace (rev (dropWhile isWhiteSpace s)))"

definition quoted :: "string \<Rightarrow> string" where
  "quoted s = [CHR 0x27] @ s @ [CHR 0x27]"

text \<open>
  A thrown value: an \<open>Error\<close> object with its message, or anything else. The source reads
  it with \<open>error instanceof Error ? error.message : dflt\<close>.
\<close>

datatype thrown = Error string | NonError

definition message_or :: "thrown \<Rightarrow> string \<Rightarrow> string" where
  "message_or e dflt = (case e of Error m \<Rightarrow> m | NonError \<Rightarrow> dflt)"

section \<open>The \<open>path\<close> module (POSIX)\<close>

text \<open>
  \<open>path.join\<close> and \<open>path.resolve\<close> of Node.js on a POSIX host. \<open>normalizeString\<close>
  works on the segments between the separators: empty segments and \<open>.\<close> are dropped, \<open>..\<close>
  removes the segment before it (or is kept, in a relative path that climbs above its start).
\<close>

fun split_sep :: "string \<Rightarrow> string list" where
  "split_sep [] = [[]]"
| "split_sep (c # cs) =
     (if c = CHR ''/'' then [] # split_sep cs
      else (case split_sep cs of [] \<Rightarrow> [[c]] | seg # segs \<Rightarrow> (c # seg) # segs))"

fun join_sep :: "string list \<Rightarrow> string" where
  "join_sep [] = []"
| "join_sep [s] = s"
| "join_sep (s # t # ss) = s @ ''/'' @ join_sep (t # ss)"

definition norm_step :: "bool \<Rightarrow> string list \<Rightarrow> string \<Rightarrow> string list" where
  "norm_step allowAboveRoot res seg =
     (if seg = [] \<or> seg = ''.'' then res
      else if seg = ''..'' then
        (if res \<noteq> [] \<and> last res \<noteq> ''..'' then butlast res
         else if allowAboveRoot then res @ [''..''] else res)
      else res @ [seg])"

definition normalizeString :: "string \<Rightarrow> bool \<Rightarrow> string list" where
  "normalizeString path allowAboveRoot = foldl (norm_step allowAboveRoot) [] (split_sep path)"

definition path_normalize :: "string \<Rightarrow> string" where
  "path_normalize path =
     (if path = [] then ''.''
      else
        let isAbsolute = (hd path = CHR ''/'');
            trailingSeparator = (last path = CHR ''/'');
            p = join_sep (normalizeString path (\<not> isAbsolute))
        in if p = [] then (if isAbsolute then ''/'' else if trailingSeparator then ''./'' else ''.'')
           else (if isAbsolute then ''/'' else []) @ p @ (if trailingSeparator then ''/'' else []))"

definition path_join :: "string list \<Rightarrow> string" where
  "path_join args =
     (let parts = filter (\<lambda>a. a \<noteq> []) args
      in if parts = [] then ''.'' else path_normalize (join_sep parts))"

fun resolve_acc :: "string list \<Rightarrow> string \<Rightarrow> string \<times> bool" where
  "resolve_acc [] acc = (acc, False)"
| "resolve_acc (p # ps) acc =
     (if p = [] then resolve_acc ps acc
      else if hd p = CHR ''/'' then (p @ ''/'' @ acc, True)
      else resolve_acc ps (p @ ''/'' @ acc))"

definition path_resolve :: "string \<Rightarrow> string list \<Rightarrow> string" where
  "path_resolve cwd_str args =
     (case resolve_acc (rev (cwd_str # args)) [] of (resolvedPath, resolvedAbsolute) \<Rightarrow>
        let p = join_sep (normalizeString resolvedPath (\<not> resolvedAbsolute))
        in if resolvedAbsolute then ''/'' @ p else if p \<noteq> [] then p else ''.'')"

section \<open>The file system and the \<open>fs/promises\<close> module\<close>

text \<open>
  The file system is a tree of directories and regular files; a directory lists its entries
  in enumeration order. Symbolic and hard links, special files and permission bits are not
  part of the tree. Every other way a call can fail (permissions, I/O errors) is the field
  \<open>faults\<close>: a call it names throws the given value and changes nothing. A path string
  denotes a location, the list of names from the root: relative paths start at the working
  directory (\<open>cwd\<close>, the string \<open>process.cwd()\<close> returns), \<open>..\<close> is resolved
  lexically and a trailing separator is dropped, as \<open>path.join\<close> and \<open>path.resolve\<close> do
  for the paths the handlers build. A path that still holds \<open>..\<close> or ends in a separator
  is read the same way, where the operating system would walk it component by component;
  a NUL character in a path is not rejected.
\<close>

datatype node = File string | Dir "(string \<times> node) list"

datatype errno = ENOENT | ENOTDIR | EISDIR | EEXIST | EACCES

datatype syscall =
    Access string
  | Mkdir string
  | Readdir string
  | Stat string
  | CopyFile string string
  | ReadFile string

record filesystem =
  tree :: node
  cwd :: string
  faults :: "syscall \<Rightarrow> thrown option"

record Stats =
  isFile :: bool
  isDirectory :: bool

definition errno_text :: "errno \<Rightarrow> string" where
  "errno_text c = (case c of
       ENOENT \<Rightarrow> ''ENOENT: no such file or directory''
     | ENOTDIR \<Rightarrow> ''ENOTDIR: not a directory''
     | EISDIR \<Rightarrow> ''EISDIR: illegal operation on a directory''
     | EEXIST \<Rightarrow> ''EEXIST: file already exists''
     | EACCES \<Rightarrow> ''EACCES: permission denied'')"

definition sys_error :: "errno \<Rightarrow> string \<Rightarrow> thrown" where
  "sys_error c what = Error (errno_text c @ '', '' @ what)"

definition locate :: "filesystem \<Rightarrow> string \<Rightarrow> string list" where
  "locate fs p =
     foldl (norm_step False) []
       ((if p \<noteq> [] \<and> hd p = CHR ''/'' then [] else split_sep (cwd fs)) @ split_sep p)"

fun lookup :: "node \<Rightarrow> string list \<Rightarrow> errno + node" where
  "lookup t [] = Inr t"
| "lookup (File c) (n # ns) = Inl ENOTDIR"
| "lookup (Dir es) (n # ns) =
     (case map_of es n of None \<Rightarrow> Inl ENOENT | Some ch \<Rightarrow> lookup ch ns)"

definition node_at :: "filesystem \<Rightarrow> string \<Rightarrow> errno + node" where
  "node_at fs p = (if p = [] then Inl ENOENT else lookup (tree fs) (locate fs p))"

fun fresh_dirs :: "string list \<Rightarrow> node" where
  "fresh_dirs [] = Dir []"
| "fresh_dirs (n # ns) = Dir [(n, fresh_dirs ns)]"

fun mkdirp :: "node \<Rightarrow> string list \<Rightarrow> errno + node" where
  "mkdirp (Dir es) [] = Inr (Dir es)"
| "mkdirp (File c) [] = Inl EEXIST"
| "mkdirp (File c) (n # ns) = Inl ENOTDIR"
| "mkdirp (Dir es) (n # ns) =
     (case map_of es n of
        None \<Rightarrow> Inr (Dir (es @ [(n, fresh_dirs ns)]))
      | Some ch \<Rightarrow>
          (case mkdirp ch ns of
             Inl e \<Rightarrow> Inl e
           | Inr ch' \<Rightarrow> Inr (Dir (AList.update n ch' es))))"

fun write_file :: "node \<Rightarrow> string list \<Rightarrow> string \<Rightarrow> errno + node" where
  "write_file (File old) [] c = Inr (File c)"
| "write_file (Dir es) [] c = Inl EISDIR"
| "write_file (File old) (n # ns) c = Inl ENOTDIR"
| "write_file (Dir es) (n # ns) c =
     (case map_of es n of
        None \<Rightarrow> (if ns = [] then Inr (Dir (es @ [(n, File c)])) else Inl ENOENT)
      | Some ch \<Rightarrow>
          (case write_file ch ns c of
             Inl e \<Rightarrow> Inl e
           | Inr ch' \<Rightarrow> Inr (Dir (AList.update n ch' es))))"

text \<open>\<open>fs.access(p)\<close>: the entry exists.\<close>

definition fs_access :: "filesystem \<Rightarrow> string \<Rightarrow> thrown + unit" where
  "fs_access fs p =
     (case faults fs (Access p) of
        Some e \<Rightarrow> Inl e
      | None \<Rightarrow>
          (case node_at fs p of
             Inl c \<Rightarrow> Inl (sys_error c (''access '' @ quoted p))
           | Inr t \<Rightarrow> Inr ()))"

text \<open>\<open>fs.mkdir(p, { recursive: true })\<close>: creates the directory and its missing ancestors.\<close>

definition fs_mkdir :: "filesystem \<Rightarrow> string \<Rightarrow> thrown + filesystem" where
  "fs_mkdir fs p =
     (case faults fs (Mkdir p) of
        Some e \<Rightarrow> Inl e
      | None \<Rightarrow>
          (if p = [] then Inl (sys_error ENOENT (''mkdir '' @ quoted p))
           else
             (case mkdirp (tree fs) (locate fs p) of
                Inl c \<Rightarrow> Inl (sys_error c (''mkdir '' @ quoted p))
              | Inr t \<Rightarrow> Inr (fs\<lparr>tree := t\<rparr>))))"

text \<open>\<open>fs.readdir(p)\<close>: the names of the entries of a directory.\<close>

definition fs_readdir :: "filesystem \<Rightarrow> string \<Rightarrow> thrown + string list" where
  "fs_readdir fs p =
     (case faults fs (Readdir p) of
        Some e \<Rightarrow> Inl e
      | None \<Rightarrow>
          (case node_at fs p of
             Inl c \<Rightarrow> Inl (sys_error c (''scandir '' @ quoted p))
           | Inr (File c) \<Rightarrow> Inl (sys_error ENOTDIR (''scandir '' @ quoted p))
           | Inr (Dir es) \<Rightarrow> Inr (map fst es)))"

text \<open>\<open>fs.stat(p)\<close>.\<close>

definition fs_stat :: "filesystem \<Rightarrow> string \<Rightarrow> thrown + Stats" where
  "fs_stat fs p =
     (case faults fs (Stat p) of
        Some e \<Rightarrow> Inl e
      | None \<Rightarrow>
          (case node_at fs p of
             Inl c \<Rightarrow> Inl (sys_error c (''stat '' @ quoted p))
           | Inr (File c) \<Rightarrow> Inr \<lparr>isFile = True, isDirectory = False\<rparr>
           | Inr (Dir es) \<Rightarrow> Inr \<lparr>isFile = False, isDirectory = True\<rparr>))"

text \<open>\<open>fs.copyFile(src, dest)\<close>: \<open>dest\<close> is created, or overwritten if it is a file.\<close>

definition fs_copyFile :: "filesystem \<Rightarrow> string \<Rightarrow> string \<Rightarrow> thrown + filesystem" where
  "fs_copyFile fs src dest =
     (let what = ''copyfile '' @ quoted src @ '' -> '' @ quoted dest in
      case faults fs (CopyFile src dest) of
        Some e \<Rightarrow> Inl e
      | None \<Rightarrow>
          (case node_at fs src of
             Inl c \<Rightarrow> Inl (sys_error c what)
           | Inr (Dir es) \<Rightarrow> Inl (sys_error EISDIR what)
           | Inr (File content) \<Rightarrow>
               (if dest = [] then Inl (sys_error ENOENT what)
                else
                  (case write_file (tree fs) (locate fs dest) content of
                     Inl c \<Rightarrow> Inl (sys_error c what)
                   | Inr t \<Rightarrow> Inr (fs\<lparr>tree := t\<rparr>)))))"

text \<open>\<open>fs.readFile(p, 'utf-8')\<close>.\<close>

definition fs_readFile :: "filesystem \<Rightarrow> string \<Rightarrow> thrown + string" where
  "fs_readFile fs p =
     (case faults fs (ReadFile p) of
        Some e \<Rightarrow> Inl e
      | None \<Rightarrow>
          (case node_at fs p of
             Inl c \<Rightarrow> Inl (sys_error c (''open '' @ quoted p))
           | Inr (Dir es) \<Rightarrow> Inl (sys_error EISDIR ''read'')
           | Inr (File content) \<Rightarrow> Inr content))"

section \<open>The server\<close>

datatype ErrorType = CONFIG_PARSING_ERROR | OPERATION_ERROR

datatype ErrorRecord = ErrorRecord (etype: ErrorType) (message: string)

datatype GlobalRulesResponse = SuccessResponse | FailedResponse "ErrorRecord list"

fun success :: "GlobalRulesResponse \<Rightarrow> bool" where
  "success SuccessResponse = True"
| "success (FailedResponse es) = False"

fun errors :: "GlobalRulesResponse \<Rightarrow> ErrorRecord list" where
  "errors SuccessResponse = []"
| "errors (FailedResponse es) = es"

record LoadGlobalRulesRequest =
  path :: string

type_synonym SaveGlobalRulesRequest = LoadGlobalRulesRequest

record Config =
  globalRulesSourceDir :: "string option"

record GlobalRulesServer =
  config :: Config

definition new_GlobalRulesServer :: GlobalRulesServer where
  "new_GlobalRulesServer = \<lparr>config = \<lparr>globalRulesSourceDir = None\<rparr>\<rparr>"

text \<open>
  The value \<open>JSON.parse\<close> returns. The parser itself and the directory of the running
  module (\<open>__dirname\<close>) belong to the host and are parameters of the model.
\<close>

datatype json =
    JNull
  | JBool bool
  | JNumber real
  | JString string
  | JArray "json list"
  | JObject "(string \<times> json) list"

record host =
  dirname :: string
  JSON_parse :: "string \<Rightarrow> thrown + json"

text \<open>Reading a property: \<open>None\<close> is \<open>undefined\<close>; reading a property of \<open>null\<close> throws.\<close>

definition get_property :: "json \<Rightarrow> string \<Rightarrow> thrown + json option" where
  "get_property v k =
     (case v of
        JNull \<Rightarrow> Inl (Error (''Cannot read properties of null (reading '' @ quoted k @ '')''))
      | JObject kvs \<Rightarrow> Inr (map_of kvs k)
      | _ \<Rightarrow> Inr None)"

fun truthy :: "json option \<Rightarrow> bool" where
  "truthy None = False"
| "truthy (Some JNull) = False"
| "truthy (Some (JBool b)) = b"
| "truthy (Some (JNumber r)) = (r \<noteq> 0)"
| "truthy (Some (JString s)) = (s \<noteq> [])"
| "truthy (Some (JArray vs)) = True"
| "truthy (Some (JObject kvs)) = True"

definition config_error :: "string \<Rightarrow> ErrorRecord" where
  "config_error m = ErrorRecord CONFIG_PARSING_ERROR m"

definition operation_error :: "string \<Rightarrow> ErrorRecord" where
  "operation_error m = ErrorRecord OPERATION_ERROR m"

text \<open>
  \<open>loadConfig\<close>, lines 58 to 101. \<open>loadConfig_try\<close> is the outer \<open>try\<close> block after the check
  that the file exists: \<open>Inl\<close> is a value thrown to the outer \<open>catch\<close>, \<open>Inr\<close> a value returned.
\<close>

definition loadConfig_try :: "host \<Rightarrow> filesystem \<Rightarrow> string \<Rightarrow> thrown + (ErrorRecord + Config)" where
  "loadConfig_try h fs configPath =
     (case fs_readFile fs configPath of
        Inl e \<Rightarrow> Inl e
      | Inr configContent \<Rightarrow>
          (case JSON_parse h configContent of
             Inl e \<Rightarrow> Inl e
           | Inr parsed \<Rightarrow>
               (case get_property parsed ''globalRulesSourceDir'' of
                  Inl e \<Rightarrow> Inl e
                | Inr v \<Rightarrow>
                    (if \<not> truthy v then
                       Inr (Inl (config_error ''globalRulesSourceDir is not set or empty in config.json''))
                     else
                       (case v of
                          Some (JString s) \<Rightarrow>
                            (if trim s = [] then
                               Inr (Inl (config_error ''globalRulesSourceDir is not set or empty in config.json''))
                             else
                               (case fs_access fs s of
                                  Inl e \<Rightarrow>
                                    Inr (Inl (config_error (''Global rules directory does not exist: '' @ s)))
                                | Inr u \<Rightarrow> Inr (Inr \<lparr>globalRulesSourceDir = Some s\<rparr>)))
                        | _ \<Rightarrow> Inl (Error ''config.globalRulesSourceDir.trim is not a function''))))))"

definition loadConfig :: "host \<Rightarrow> filesystem \<Rightarrow> ErrorRecord + Config" where
  "loadConfig h fs =
     (let configPath = path_resolve (cwd fs) [dirname h, ''../config.json''] in
      case fs_access fs configPath of
        Inl e \<Rightarrow> Inl (config_error (''Configuration file '' @ configPath @ '' not found''))
      | Inr u \<Rightarrow>
          (case loadConfig_try h fs configPath of
             Inl error \<Rightarrow>
               Inl (config_error (''Failed to parse config.json: '' @ message_or error ''Unknown error''))
           | Inr r \<Rightarrow> r))"

text \<open>
  \<open>copyGlobalRulesFiles\<close>, lines 154 to 219. \<open>copy_try\<close> is the body of the \<open>try\<close> inside the
  loop, \<open>copy_loop\<close> the \<open>for ... of\<close> loop with the array \<open>errors\<close> and the file system as
  its state.
\<close>

definition copy_try :: "filesystem \<Rightarrow> string \<Rightarrow> string \<Rightarrow> string \<Rightarrow> thrown + filesystem" where
  "copy_try fs sourceDir targetDir file =
     (let sourcePath = path_join [sourceDir, file];
          targetPath = path_join [targetDir, file]
      in case fs_stat fs sourcePath of
           Inl e \<Rightarrow> Inl e
         | Inr stat \<Rightarrow> if isFile stat then fs_copyFile fs sourcePath targetPath else Inr fs)"

fun copy_loop ::
  "string \<Rightarrow> string \<Rightarrow> string list \<Rightarrow> ErrorRecord list \<times> filesystem \<Rightarrow> ErrorRecord list \<times> filesystem"
where
  "copy_loop sourceDir targetDir [] (errs, fs) = (errs, fs)"
| "copy_loop sourceDir targetDir (file # rest) (errs, fs) =
     (case copy_try fs sourceDir targetDir file of
        Inl error \<Rightarrow>
          copy_loop sourceDir targetDir rest
            (errs @ [operation_error
               (''Failed to copy '' @ file @ '': '' @ message_or error ''Unknown error'')], fs)
      | Inr fs' \<Rightarrow> copy_loop sourceDir targetDir rest (errs, fs'))"

definition copyGlobalRulesFiles ::
  "filesystem \<Rightarrow> string \<Rightarrow> string \<Rightarrow> GlobalRulesResponse \<times> filesystem"
where
  "copyGlobalRulesFiles fs sourceDir targetDir =
     (case fs_access fs sourceDir of
        Inl e \<Rightarrow>
          (FailedResponse
             [operation_error (''Source directory does not exist: '' @ sourceDir)], fs)
      | Inr u \<Rightarrow>
          (case fs_mkdir fs targetDir of
             Inl error \<Rightarrow>
               (FailedResponse [operation_error (message_or error ''Unknown error occurred'')], fs)
           | Inr fs1 \<Rightarrow>
               (case fs_readdir fs1 sourceDir of
                  Inl error \<Rightarrow>
                    (FailedResponse
                       [operation_error (message_or error ''Unknown error occurred'')], fs1)
                | Inr files \<Rightarrow>
                    (let globalFiles = filter (\<lambda>file. startsWith file ''g-'') files in
                     if length globalFiles = 0 then (SuccessResponse, fs1)
                     else
                       (case copy_loop sourceDir targetDir globalFiles ([], fs1) of
                          (errs, fs2) \<Rightarrow>
                            if length errs > 0 then (FailedResponse errs, fs2)
                            else (SuccessResponse, fs2))))))"

text \<open>
  The two tool handlers, lines 221 to 277. The result is the object passed to
  \<open>JSON.stringify\<close>; the handlers neither read nor assign the field \<open>config\<close> of the server.
\<close>

definition handleLoadGlobalRules ::
  "GlobalRulesServer \<Rightarrow> host \<Rightarrow> filesystem \<Rightarrow> LoadGlobalRulesRequest
     \<Rightarrow> GlobalRulesResponse \<times> GlobalRulesServer \<times> filesystem"
where
  "handleLoadGlobalRules this h fs request =
     (case loadConfig h fs of
        Inl error \<Rightarrow> (FailedResponse [error], this, fs)
      | Inr cfg \<Rightarrow>
          (let sourceRulesDir = the (globalRulesSourceDir cfg);
               targetRulesDir = path_join [path request, ''.cursor'', ''rules'']
           in case copyGlobalRulesFiles fs sourceRulesDir targetRulesDir of
                (result, fs') \<Rightarrow> (result, this, fs')))"

definition handleSaveGlobalRules ::
  "GlobalRulesServer \<Rightarrow> host \<Rightarrow> filesystem \<Rightarrow> SaveGlobalRulesRequest
     \<Rightarrow> GlobalRulesResponse \<times> GlobalRulesServer \<times> filesystem"
where
  "handleSaveGlobalRules this h fs request =
     (case loadConfig h fs of
        Inl error \<Rightarrow> (FailedResponse [error], this, fs)
      | Inr cfg \<Rightarrow>
          (let sourceRulesDir = path_join [path request, ''.cursor'', ''rules''];
               targetRulesDir = the (globalRulesSourceDir cfg)
           in case copyGlobalRulesFiles fs sourceRulesDir targetRulesDir of
                (result, fs') \<Rightarrow> (result, this, fs')))"

section \<open>Observations of the file system\<close>

text \<open>
  What stands at a location: the content of a regular file, a directory, the names a
  directory lists. The same for a path string.
\<close>

definition file_at :: "node \<Rightarrow> string list \<Rightarrow> string option" where
  "file_at t l = (case lookup t l of Inr (File c) \<Rightarrow> Some c | _ \<Rightarrow> None)"

definition dir_at :: "node \<Rightarrow> string list \<Rightarrow> bool" where
  "dir_at t l = (case lookup t l of Inr (Dir es) \<Rightarrow> True | _ \<Rightarrow> False)"

definition names_at :: "node \<Rightarrow> string list \<Rightarrow> string list" where
  "names_at t l = (case lookup t l of Inr (Dir es) \<Rightarrow> map fst es | _ \<Rightarrow> [])"

definition path_exists :: "filesystem \<Rightarrow> string \<Rightarrow> bool" where
  "path_exists fs p = (case node_at fs p of Inl c \<Rightarrow> False | Inr t \<Rightarrow> True)"

definition is_directory :: "filesystem \<Rightarrow> string \<Rightarrow> bool" where
  "is_directory fs p = (case node_at fs p of Inr (Dir es) \<Rightarrow> True | _ \<Rightarrow> False)"

definition file_of :: "filesystem \<Rightarrow> string \<Rightarrow> string option" where
  "file_of fs p = (case node_at fs p of Inr (File c) \<Rightarrow> Some c | _ \<Rightarrow> None)"

definition is_global :: "string \<Rightarrow> bool" where
  "is_global file = startsWith file ''g-''"

text \<open>
  A file system is well formed when every entry name is a file name: not empty, not \<open>.\<close>
  or \<open>..\<close>, and without a separator.
\<close>

definition plain :: "string \<Rightarrow> bool" where
  "plain s = (s \<noteq> [] \<and> s \<noteq> ''.'' \<and> s \<noteq> ''..'')"

definition valid_name :: "string \<Rightarrow> bool" where
  "valid_name n = (plain n \<and> CHR ''/'' \<notin> set n)"

fun wf_node :: "node \<Rightarrow> bool" where
  "wf_node (File c) = True"
| "wf_node (Dir es) = (\<forall>e\<in>set es. valid_name (fst e) \<and> wf_node (snd e))"

definition wf_fs :: "filesystem \<Rightarrow> bool" where
  "wf_fs fs = wf_node (tree fs)"

text \<open>
  \<open>copies_inv G fs1 S T st\<close>: the state \<open>st\<close> differs from \<open>fs1\<close> at most by regular files of
  the directory \<open>S\<close> with names in \<open>G\<close> copied into the directory \<open>T\<close> under their names.
  \<open>in_sync st S T n\<close>: the loop body for the name \<open>n\<close> has nothing left to do in \<open>st\<close>.
\<close>

definition copies_inv :: "string set \<Rightarrow> filesystem \<Rightarrow> string \<Rightarrow> string \<Rightarrow> filesystem \<Rightarrow> bool" where
  "copies_inv G fs1 S T st =
     (cwd st = cwd fs1 \<and> faults st = faults fs1 \<and>
      (\<forall>l. dir_at (tree st) l = dir_at (tree fs1) l) \<and>
      (\<forall>l. file_at (tree st) l = file_at (tree fs1) l \<or>
           (\<exists>n\<in>G. l = locate fs1 T @ [n] \<and> file_at (tree fs1) (locate fs1 S @ [n]) \<noteq> None \<and>
                   file_at (tree st) l = file_at (tree fs1) (locate fs1 S @ [n]))) \<and>
      (\<forall>d. set (names_at (tree st) d) \<subseteq> set (names_at (tree fs1) d) \<union> (if d = locate fs1 T then G else {})))"

definition in_sync :: "filesystem \<Rightarrow> string \<Rightarrow> string \<Rightarrow> string \<Rightarrow> bool" where
  "in_sync st S T n =
     (faults st (Stat (path_join [S, n])) = None \<and>
      (dir_at (tree st) (locate st S @ [n]) \<or>
       (\<exists>c. file_at (tree st) (locate st S @ [n]) = Some c \<and>
            faults st (CopyFile (path_join [S, n]) (path_join [T, n])) = None \<and>
            file_at (tree st) (locate st T @ [n]) = Some c)))"

text \<open>
  The attempts of the loop, in order: each matching file with the outcome of its loop body
  in the state the attempts before it left. \<open>attempt_errors\<close> is the error record the \<open>catch\<close>
  pushes for a failed attempt.
\<close>

fun copy_trace :: "string \<Rightarrow> string \<Rightarrow> string list \<Rightarrow> filesystem \<Rightarrow> (string \<times> (thrown + filesystem)) list" where
  "copy_trace S T [] fs = []"
| "copy_trace S T (file # rest) fs =
     (file, copy_try fs S T file) #
     copy_trace S T rest (case copy_try fs S T file of Inl e \<Rightarrow> fs | Inr fs' \<Rightarrow> fs')"

definition attempt_errors :: "string \<times> (thrown + filesystem) \<Rightarrow> ErrorRecord list" where
  "attempt_errors a =
     (case snd a of
        Inl e \<Rightarrow> [ErrorRecord OPERATION_ERROR
                   (''Failed to copy '' @ fst a @ '': '' @ message_or e ''Unknown error'')]
      | Inr fs' \<Rightarrow> [])"

definition attempt_state :: "filesystem \<Rightarrow> string \<times> (thrown + filesystem) \<Rightarrow> filesystem" where
  "attempt_state fs a = (case snd a of Inl e \<Rightarrow> fs | Inr fs' \<Rightarrow> fs')"

text \<open>
  The configuration stores on which \<open>loadConfig\<close> is claimed to fail: the file is missing;
  its content does not parse; the parsed object has no field \<open>globalRulesSourceDir\<close>; the
  field is a string that is blank after trimming; or it names a path at which nothing stands.
\<close>

definition config_store_bad :: "host \<Rightarrow> filesystem \<Rightarrow> bool" where
  "config_store_bad h fs =
     (let configPath = path_resolve (cwd fs) [dirname h, ''../config.json''] in
      if \<not> path_exists fs configPath then True
      else
        (case fs_readFile fs configPath of
           Inl e \<Rightarrow> False
         | Inr content \<Rightarrow>
             (case JSON_parse h content of
                Inl e \<Rightarrow> True
              | Inr (JObject kvs) \<Rightarrow>
                  (case map_of kvs ''globalRulesSourceDir'' of
                     None \<Rightarrow> True
                   | Some (JString s) \<Rightarrow> trim s = [] \<or> \<not> path_exists fs s
                   | Some v \<Rightarrow> False)
              | Inr v \<Rightarrow> False)))"

text \<open>The directory the configuration store names, when it holds a string for the field.\<close>

definition configured_dir :: "host \<Rightarrow> filesystem \<Rightarrow> string option" where
  "configured_dir h fs =
     (case fs_readFile fs (path_resolve (cwd fs) [dirname h, ''../config.json'']) of
        Inl e \<Rightarrow> None
      | Inr content \<Rightarrow>
          (case JSON_parse h content of
             Inr (JObject kvs) \<Rightarrow>
               (case map_of kvs ''globalRulesSourceDir'' of
                  Some (JString s) \<Rightarrow> Some s
                | _ \<Rightarrow> None)
           | _ \<Rightarrow> None))"

section \<open>Example states\<close>

text \<open>
  File systems and a host on which the theorems below are instantiated. The parser of
  \<open>host_ex\<close> knows the configuration texts used here and reports every other text as a
  syntax error.
\<close>

definition fs_c4 :: filesystem where
  "fs_c4 = \<lparr>tree = Dir [(''home'', Dir [])], cwd = ''/'', faults = (\<lambda>c. None)\<rparr>"


definition fs_c1 :: filesystem where
  "fs_c1 = \<lparr>tree = Dir [(''g'', Dir [(''g-a.mdc'', File ''A''), (''g-b.mdc'', File ''B''),
                                   (''other.mdc'', File ''O''), (''g-c.mdc'', File ''C''),
                                   (''g-d.mdc'', File ''D'')]),
                         (''p'', Dir [(''.cursor'', Dir [(''rules'', Dir [(''g-b.mdc'', Dir [])])])])],
            cwd = ''/'',
            faults = (\<lambda>c. if c = Stat ''/g/g-c.mdc''
                         then Some (sys_error EACCES (''stat '' @ quoted ''/g/g-c.mdc''))
                         else None)\<rparr>"

definition fs_c9 :: filesystem where
  "fs_c9 = \<lparr>tree = Dir [(''g'', Dir [(''g-sub'', Dir [(''g-x.mdc'', File ''X'')]), (''g-a.mdc'', File ''A'')]),
                         (''t'', Dir [])],
            cwd = ''/'', faults = (\<lambda>c. None)\<rparr>"




definition config_text :: "string \<Rightarrow> string" where
  "config_text dir = ''{ '' @ [CHR 0x22] @ ''globalRulesSourceDir'' @ [CHR 0x22] @ '': '' @ [CHR 0x22] @ dir @ [CHR 0x22] @ '' }''"

definition host_ex :: host where
  "host_ex = \<lparr>dirname = ''/opt/global-mdc/dist'',
     JSON_parse = (\<lambda>s.
       if s = config_text ''/rules'' then Inr (JObject [(''globalRulesSourceDir'', JString ''/rules'')])
       else if s = config_text ''  '' then Inr (JObject [(''globalRulesSourceDir'', JString ''  '')])
       else if s = config_text ''/gone'' then Inr (JObject [(''globalRulesSourceDir'', JString ''/gone'')])
       else if s = ''{}'' then Inr (JObject [])
       else Inl (Error ''Unexpected token''))\<rparr>"

definition fs_cfg :: "string \<Rightarrow> filesystem" where
  "fs_cfg content =
     \<lparr>tree = Dir [(''opt'', Dir [(''global-mdc'', Dir [(''dist'', Dir []), (''config.json'', File content)])]),
                  (''rules'', Dir [(''g-a.mdc'', File ''A'')]),
                  (''p'', Dir [])],
      cwd = ''/'', faults = (\<lambda>c. None)\<rparr>"

definition fs_c10_after_load :: filesystem where
  "fs_c10_after_load =
     \<lparr>tree = Dir [(''opt'', Dir [(''global-mdc'', Dir [(''dist'', Dir []), (''config.json'', File (config_text ''/rules''))])]),
                  (''rules'', Dir [(''g-a.mdc'', File ''A'')]),
                  (''p'', Dir [(''.cursor'', Dir [(''rules'', Dir [(''g-a.mdc'', File ''A'')])])])],
      cwd = ''/'', faults = (\<lambda>c. None)\<rparr>"

definition fs_c10_edited :: filesystem where
  "fs_c10_edited =
     \<lparr>tree = Dir [(''opt'', Dir [(''global-mdc'', Dir [(''dist'', Dir []), (''config.json'', File (config_text ''  ''))])]),
                  (''rules'', Dir [(''g-a.mdc'', File ''A'')]),
                  (''p'', Dir [(''.cursor'', Dir [(''rules'', Dir [(''g-a.mdc'', File ''A'')])])])],
      cwd = ''/'', faults = (\<lambda>c. None)\<rparr>"

definition fs_c2 :: filesystem where
  "fs_c2 =
     \<lparr>tree = Dir [(''rules'', Dir [(''g-a.mdc'', File ''A''), (''g-b.mdc'', File ''B''),
                                 (''other.mdc'', File ''O''), (''g-sub'', Dir [])]),
                  (''p'', Dir [(''.cursor'', Dir [(''rules'',
                     Dir [(''g-a.mdc'', File ''old''), (''other.mdc'', File ''keep'')])])])],
      cwd = ''/'', faults = (\<lambda>c. None)\<rparr>"

definition fs_c2_after :: filesystem where
  "fs_c2_after =
     \<lparr>tree = Dir [(''rules'', Dir [(''g-a.mdc'', File ''A''), (''g-b.mdc'', File ''B''),
                                 (''other.mdc'', File ''O''), (''g-sub'', Dir [])]),
                  (''p'', Dir [(''.cursor'', Dir [(''rules'',
                     Dir [(''g-a.mdc'', File ''A''), (''other.mdc'', File ''keep''),
                          (''g-b.mdc'', File ''B'')])])])],
      cwd = ''/'', faults = (\<lambda>c. None)\<rparr>"

definition fs_nocfg :: filesystem where
  "fs_nocfg =
     \<lparr>tree = Dir [(''opt'', Dir [(''global-mdc'', Dir [(''dist'', Dir [])])]),
                  (''rules'', Dir [(''g-a.mdc'', File ''A'')]),
                  (''p'', Dir [])],
      cwd = ''/'', faults = (\<lambda>c. None)\<rparr>"

definition fs_c9_dirs :: filesystem where
  "fs_c9_dirs = \<lparr>tree = Dir [(''g'', Dir [(''g-sub'', Dir [(''g-x.mdc'', File ''X'')]), (''readme.md'', File ''R'')]),
                         (''t'', Dir [])],
            cwd = ''/'', faults = (\<lambda>c. None)\<rparr>"

definition fs_c8 :: filesystem where
  "fs_c8 =
     \<lparr>tree = Dir [(''opt'', Dir [(''global-mdc'', Dir [(''dist'', Dir []), (''config.json'', File (config_text ''/rules''))])]),
                  (''rules'', Dir [(''g-a.mdc'', File ''old'')]),
                  (''p'', Dir [(''.cursor'', Dir [(''rules'',
                     Dir [(''g-a.mdc'', File ''A''), (''g-n.mdc'', File ''N''), (''local.mdc'', File ''L'')])])])],
      cwd = ''/'', faults = (\<lambda>c. None)\<rparr>"

definition fs_c8_after :: filesystem where
  "fs_c8_after =
     \<lparr>tree = Dir [(''opt'', Dir [(''global-mdc'', Dir [(''dist'', Dir []), (''config.json'', File (config_text ''/rules''))])]),
                  (''rules'', Dir [(''g-a.mdc'', File ''A''), (''g-n.mdc'', File ''N'')]),
                  (''p'', Dir [(''.cursor'', Dir [(''rules'',
                     Dir [(''g-a.mdc'', File ''A''), (''g-n.mdc'', File ''N''), (''local.mdc'', File ''L'')])])])],
      cwd = ''/'', faults = (\<lambda>c. None)\<rparr>"

section \<open>Paths and locations\<close>

lemma split_sep_nonempty [simp]: "split_sep s \<noteq> []"
  by (induction s) (auto split: list.splits)

lemma split_sep_append: "split_sep (a @ CHR ''/'' # b) = split_sep a @ split_sep b"
proof (induction a)
  case Nil
  then show ?case by simp
next
  case (Cons c a)
  obtain x xs where "split_sep a = x # xs" by (cases "split_sep a") auto
  then show ?case using Cons by simp
qed

lemma split_sep_noslash: "CHR ''/'' \<notin> set s \<Longrightarrow> split_sep s = [s]"
  by (induction s) auto

lemma split_sep_segments: "seg \<in> set (split_sep s) \<Longrightarrow> CHR ''/'' \<notin> set seg"
proof (induction s arbitrary: seg)
  case Nil
  then show ?case by simp
next
  case (Cons c cs)
  show ?case
  proof (cases "c = CHR ''/''")
    case True
    with Cons show ?thesis by auto
  next
    case False
    obtain x xs where sp: "split_sep cs = x # xs"
      by (cases "split_sep cs") auto
    with Cons.prems False have "seg = c # x \<or> seg \<in> set xs" by auto
    moreover have "CHR ''/'' \<notin> set x" using Cons.IH sp by simp
    moreover have "\<And>y. y \<in> set xs \<Longrightarrow> CHR ''/'' \<notin> set y" using Cons.IH sp by simp
    ultimately show ?thesis using False by auto
  qed
qed

lemma split_join:
  "segs \<noteq> [] \<Longrightarrow> (\<forall>seg\<in>set segs. CHR ''/'' \<notin> set seg) \<Longrightarrow> split_sep (join_sep segs) = segs"
proof (induction segs rule: join_sep.induct)
  case 1
  then show ?case by simp
next
  case (2 s)
  then show ?case by (simp add: split_sep_noslash)
next
  case (3 s t ss)
  then show ?case by (simp add: split_sep_append split_sep_noslash)
qed

lemma norm_step_plain: "plain x \<Longrightarrow> norm_step a res x = res @ [x]"
  by (simp add: norm_step_def plain_def)

lemma foldl_norm_plain: "(\<forall>x\<in>set xs. plain x) \<Longrightarrow> foldl (norm_step a) acc xs = acc @ xs"
  by (induction xs arbitrary: acc) (simp_all add: norm_step_plain)

lemma norm_step_cases:
  "norm_step a res x = res \<or> norm_step a res x = butlast res \<or> norm_step a res x = res @ [x]"
  unfolding norm_step_def by presburger

lemma norm_step_set: "set (norm_step a res x) \<subseteq> set res \<union> {x}"
  using norm_step_cases[of a res x] by (auto dest: in_set_butlastD)

lemma norm_step_empty: "norm_step a res [] = res"
  by (simp add: norm_step_def)

lemma norm_step_dot: "norm_step a res ''.'' = res"
  by (simp add: norm_step_def)

lemma norm_step_dotdot:
  "norm_step a res ''..'' =
     (if res \<noteq> [] \<and> last res \<noteq> ''..'' then butlast res else if a then res @ [''..''] else res)"
  by (simp add: norm_step_def)

lemma not_plain: "\<not> plain x \<Longrightarrow> x = [] \<or> x = ''.'' \<or> x = ''..''"
  unfolding plain_def by blast

lemma norm_step_False_plain:
  assumes "\<forall>y\<in>set res. plain y"
  shows "\<forall>y\<in>set (norm_step False res x). plain y"
proof (cases "plain x")
  case True
  then show ?thesis using assms by (simp add: norm_step_plain)
next
  case False
  then have "norm_step False res x = res \<or> norm_step False res x = butlast res"
    using not_plain[OF False] norm_step_empty norm_step_dot norm_step_dotdot[of False res] by metis
  then show ?thesis using assms by (metis in_set_butlastD)
qed

lemma foldl_norm_False_plain:
  "(\<forall>y\<in>set acc. plain y) \<Longrightarrow> (\<forall>y\<in>set (foldl (norm_step False) acc xs). plain y)"
proof (induction xs arbitrary: acc)
  case Nil
  then show ?case by simp
next
  case (Cons x xs)
  show ?case using Cons.IH[OF norm_step_False_plain[OF Cons.prems]] by simp
qed

lemma norm_step_pred:
  "(\<forall>y\<in>set res. P y) \<Longrightarrow> P x \<Longrightarrow> (\<forall>y\<in>set (norm_step a res x). P y)"
  using norm_step_set[of a res x] by blast

lemma norm_step_nodot:
  assumes "\<forall>y\<in>set res. y \<noteq> [] \<and> y \<noteq> ''.''"
  shows "\<forall>y\<in>set (norm_step a res x). y \<noteq> [] \<and> y \<noteq> ''.''"
proof (cases "x = [] \<or> x = ''.''")
  case True
  then have "norm_step a res x = res" using norm_step_empty norm_step_dot by metis
  then show ?thesis using assms by simp
next
  case False
  show ?thesis
    by (rule norm_step_pred[where P = "\<lambda>y. y \<noteq> [] \<and> y \<noteq> ''.''", OF assms]) (use False in blast)
qed

lemma foldl_norm_nodot:
  "(\<forall>y\<in>set acc. y \<noteq> [] \<and> y \<noteq> ''.'') \<Longrightarrow> (\<forall>y\<in>set (foldl (norm_step a) acc xs). y \<noteq> [] \<and> y \<noteq> ''.'')"
proof (induction xs arbitrary: acc)
  case Nil
  then show ?case by simp
next
  case (Cons x xs)
  show ?case using Cons.IH[OF norm_step_nodot[OF Cons.prems]] by simp
qed

lemma foldl_norm_noslash:
  "(\<forall>y\<in>set acc. CHR ''/'' \<notin> set y) \<Longrightarrow> (\<forall>y\<in>set xs. CHR ''/'' \<notin> set y) \<Longrightarrow>
   (\<forall>y\<in>set (foldl (norm_step a) acc xs). CHR ''/'' \<notin> set y)"
proof (induction xs arbitrary: acc)
  case Nil
  then show ?case by simp
next
  case (Cons x xs)
  have "\<forall>y\<in>set (norm_step a acc x). CHR ''/'' \<notin> set y"
    by (rule norm_step_pred) (use Cons.prems in simp_all)
  moreover have "\<forall>y\<in>set xs. CHR ''/'' \<notin> set y" using Cons.prems by simp
  ultimately have "\<forall>y\<in>set (foldl (norm_step a) (norm_step a acc x) xs). CHR ''/'' \<notin> set y"
    by (rule Cons.IH)
  then show ?case by simp
qed

lemma foldl_norm_renorm:
  "foldl (norm_step False) C (foldl (norm_step True) [] xs) = foldl (norm_step False) C xs"
proof (induction xs rule: rev_induct)
  case Nil
  then show ?case by simp
next
  case (snoc x xs)
  let ?R = "foldl (norm_step True) [] xs"
  have nodot: "\<forall>y\<in>set ?R. y \<noteq> [] \<and> y \<noteq> ''.''"
    by (rule foldl_norm_nodot) simp
  show ?case
  proof (cases "x = ''..'' \<and> ?R \<noteq> [] \<and> last ?R \<noteq> ''..''")
    case True
    then obtain R' y where R: "?R = R' @ [y]" and y: "y \<noteq> ''..''"
      by (metis append_butlast_last_id)
    have py: "plain y" using nodot R y by (simp add: plain_def)
    have "foldl (norm_step False) C ?R = foldl (norm_step False) C R' @ [y]"
      by (simp add: R norm_step_plain[OF py])
    then have "norm_step False (foldl (norm_step False) C ?R) ''..'' = foldl (norm_step False) C R'"
      using y by (simp add: norm_step_dotdot)
    moreover have "norm_step True ?R ''..'' = R'"
      using True R by (simp add: norm_step_dotdot)
    ultimately show ?thesis using snoc True by simp
  next
    case False
    show ?thesis
    proof (cases "plain x")
      case True
      then show ?thesis using snoc by (simp add: norm_step_plain)
    next
      case np: False
      from not_plain[OF np] show ?thesis
      proof (elim disjE)
        assume "x = []"
        then show ?thesis using snoc by (simp add: norm_step_empty)
      next
        assume "x = ''.''"
        then show ?thesis using snoc by (simp add: norm_step_dot)
      next
        assume x: "x = ''..''"
        with False have "\<not> (?R \<noteq> [] \<and> last ?R \<noteq> ''..'')" by blast
        then have "norm_step True ?R x = ?R @ [x]"
          unfolding x by (simp only: norm_step_dotdot if_not_P if_True if_False)
        then show ?thesis using snoc by simp
      qed
    qed
  qed
qed

lemma join_sep_hd: "segs \<noteq> [] \<Longrightarrow> hd segs \<noteq> [] \<Longrightarrow> join_sep segs \<noteq> [] \<and> hd (join_sep segs) = hd (hd segs)"
  by (induction segs rule: join_sep.induct) auto

lemma split_sep_slash_end: "split_sep (a @ ''/'') = split_sep a @ [[]]"
  using split_sep_append[of a "[]"] by simp

lemma locate_base:
  "locate fs p = foldl (norm_step False)
      (foldl (norm_step False) [] (if p \<noteq> [] \<and> hd p = CHR ''/'' then [] else split_sep (cwd fs)))
      (split_sep p)"
  by (simp add: locate_def)

lemma locate_valid: "\<forall>n\<in>set (locate fs p). valid_name n"
proof -
  have "\<forall>y\<in>set (locate fs p). plain y"
    unfolding locate_def by (rule foldl_norm_False_plain) simp
  moreover have "\<forall>y\<in>set (locate fs p). CHR ''/'' \<notin> set y"
    unfolding locate_def
    by (rule foldl_norm_noslash) (auto dest: split_sep_segments)
  ultimately show ?thesis by (simp add: valid_name_def)
qed

lemma foldl_norm_empty_end: "foldl (norm_step a) acc (xs @ [[]]) = foldl (norm_step a) acc xs"
  by (simp add: norm_step_empty)

lemma path_normalize_nonempty: "path_normalize s \<noteq> []"
  by (simp add: path_normalize_def Let_def)

lemma path_join_nonempty: "path_join args \<noteq> []"
  by (simp add: path_join_def Let_def path_normalize_nonempty)

lemma locate_normalize_abs:
  assumes s: "s \<noteq> []" and a: "hd s = CHR ''/''"
  shows "locate fs (path_normalize s) = locate fs s"
proof -
  let ?segs = "foldl (norm_step False) [] (split_sep s)"
  have loc: "locate fs s = ?segs" using s a by (simp add: locate_def)
  have pl: "\<forall>y\<in>set ?segs. plain y" by (rule foldl_norm_False_plain) simp
  have ns: "\<forall>y\<in>set ?segs. CHR ''/'' \<notin> set y"
    by (rule foldl_norm_noslash) (auto dest: split_sep_segments)
  show ?thesis
  proof (cases "?segs = []")
    case True
    then have "path_normalize s = ''/''"
      using s a by (simp add: path_normalize_def normalizeString_def Let_def)
    then show ?thesis using True loc by (simp add: locate_def norm_step_empty)
  next
    case False
    then have hdne: "hd ?segs \<noteq> []" using pl by (cases ?segs) (auto simp: plain_def)
    have jne: "join_sep ?segs \<noteq> []" using join_sep_hd[OF False hdne] by simp
    have sj: "split_sep (join_sep ?segs) = ?segs" using split_join[OF False ns] .
    have "path_normalize s = ''/'' @ join_sep ?segs @ (if last s = CHR ''/'' then ''/'' else [])"
      using s a jne by (simp add: path_normalize_def normalizeString_def Let_def)
    then have "locate fs (path_normalize s) = foldl (norm_step False) [] ?segs"
      by (simp add: locate_def sj split_sep_slash_end norm_step_empty)
    also have "\<dots> = ?segs" using foldl_norm_plain[OF pl, of False "[]"] by simp
    finally show ?thesis using loc by simp
  qed
qed

lemma locate_normalize_rel:
  assumes s: "s \<noteq> []" and a: "hd s \<noteq> CHR ''/''"
  shows "locate fs (path_normalize s) = locate fs s"
proof -
  let ?segs = "foldl (norm_step True) [] (split_sep s)"
  let ?base = "foldl (norm_step False) [] (split_sep (cwd fs))"
  have loc: "locate fs s = foldl (norm_step False) ?base ?segs"
    using s a by (simp add: locate_def foldl_norm_renorm)
  have nd: "\<forall>y\<in>set ?segs. y \<noteq> [] \<and> y \<noteq> ''.''" by (rule foldl_norm_nodot) simp
  have ns: "\<forall>y\<in>set ?segs. CHR ''/'' \<notin> set y"
    by (rule foldl_norm_noslash) (auto dest: split_sep_segments)
  show ?thesis
  proof (cases "?segs = []")
    case True
    then have "path_normalize s = ''./'' \<or> path_normalize s = ''.''"
      using s a by (simp add: path_normalize_def normalizeString_def Let_def)
    then have "locate fs (path_normalize s) = ?base"
      by (auto simp: locate_def norm_step_empty norm_step_dot)
    then show ?thesis using True loc by simp
  next
    case False
    then have hdne: "hd ?segs \<noteq> []" using nd by (cases ?segs) auto
    have hdns: "CHR ''/'' \<notin> set (hd ?segs)" using ns False by (cases ?segs) auto
    have jne: "join_sep ?segs \<noteq> []" and jhd: "hd (join_sep ?segs) = hd (hd ?segs)"
      using join_sep_hd[OF False hdne] by simp_all
    have rel: "hd (join_sep ?segs) \<noteq> CHR ''/''"
      using jhd hdne hdns by (cases "hd ?segs") auto
    have sj: "split_sep (join_sep ?segs) = ?segs" using split_join[OF False ns] .
    have pn: "path_normalize s = join_sep ?segs @ (if last s = CHR ''/'' then ''/'' else [])"
      using s a jne by (simp add: path_normalize_def normalizeString_def Let_def)
    have "locate fs (path_normalize s) = foldl (norm_step False) ?base ?segs"
      unfolding pn using rel jne
      by (simp add: locate_def sj split_sep_slash_end norm_step_empty hd_append)
    then show ?thesis using loc by simp
  qed
qed

lemma locate_normalize: "locate fs (path_normalize s) = locate fs s"
proof (cases "s = []")
  case True
  then show ?thesis by (simp add: path_normalize_def locate_def norm_step_dot norm_step_empty)
next
  case False
  then show ?thesis using locate_normalize_abs locate_normalize_rel by blast
qed

lemma locate_slash_name:
  assumes n: "valid_name n"
  shows "d \<noteq> [] \<Longrightarrow> locate fs (d @ ''/'' @ n) = locate fs d @ [n]"
  using n by (simp add: locate_def split_sep_append split_sep_noslash valid_name_def norm_step_plain hd_append)

lemma locate_name:
  assumes n: "valid_name n"
  shows "locate fs n = locate fs [] @ [n]"
proof -
  have "n \<noteq> []" "hd n \<noteq> CHR ''/''" using n by (cases n; auto simp: valid_name_def plain_def)+
  then show ?thesis
    using n by (simp add: locate_def split_sep_noslash valid_name_def norm_step_plain norm_step_empty)
qed

lemma locate_path_join:
  assumes n: "valid_name n"
  shows "locate fs (path_join [d, n]) = locate fs d @ [n]"
proof -
  have ne: "n \<noteq> []" using n by (auto simp: valid_name_def plain_def)
  show ?thesis
  proof (cases "d = []")
    case True
    then show ?thesis using ne locate_name[OF n] by (simp add: path_join_def locate_normalize)
  next
    case False
    then show ?thesis using ne locate_slash_name[OF n False]
      by (simp add: path_join_def locate_normalize)
  qed
qed





section \<open>The tree operations\<close>

lemma file_at_simps [simp]:
  "file_at (File c) [] = Some c"
  "file_at (Dir es) [] = None"
  "file_at (File c) (n # ns) = None"
  "file_at (Dir es) (n # ns) = (case map_of es n of None \<Rightarrow> None | Some ch \<Rightarrow> file_at ch ns)"
  by (auto simp: file_at_def split: option.splits)

lemma dir_at_simps [simp]:
  "dir_at (File c) l = False"
  "dir_at (Dir es) [] = True"
  "dir_at (Dir es) (n # ns) = (case map_of es n of None \<Rightarrow> False | Some ch \<Rightarrow> dir_at ch ns)"
  by (cases l; auto simp: dir_at_def split: option.splits)+

lemma names_at_simps [simp]:
  "names_at (File c) l = []"
  "names_at (Dir es) [] = map fst es"
  "names_at (Dir es) (n # ns) = (case map_of es n of None \<Rightarrow> [] | Some ch \<Rightarrow> names_at ch ns)"
  by (cases l; auto simp: names_at_def split: option.splits)+

lemma map_of_append_new: "map_of es n = None \<Longrightarrow> map_of (es @ [(n, v)]) k = (if k = n then Some v else map_of es k)"
  by (auto simp: map_add_def split: option.splits)

lemma write_file_at:
  "write_file t l c = Inr t' \<Longrightarrow> file_at t' l' = (if l' = l then Some c else file_at t l')"
proof (induction l arbitrary: t t' l')
  case Nil
  then show ?case by (cases t; cases l') auto
next
  case (Cons n ns)
  then obtain es where t: "t = Dir es" by (cases t) auto
  show ?case
  proof (cases "map_of es n")
    case None
    with Cons.prems t have ns: "ns = []" and t': "t' = Dir (es @ [(n, File c)])"
      by (auto split: if_splits)
    show ?thesis
    proof (cases l')
      case Nil
      then show ?thesis by (simp add: t t')
    next
      case (Cons m ms)
      then show ?thesis using None
        by (cases ms) (auto simp: t t' ns map_of_append_new simp del: map_of_append)
    qed
  next
    case (Some ch)
    with Cons.prems t obtain ch' where w: "write_file ch ns c = Inr ch'" and t': "t' = Dir (AList.update n ch' es)"
      by (auto split: sum.splits)
    show ?thesis
    proof (cases l')
      case Nil
      then show ?thesis by (simp add: t t')
    next
      case (Cons m ms)
      then show ?thesis using Some Cons.IH[OF w, of ms]
        by (auto simp: t t' update_conv')
    qed
  qed
qed

lemma write_dir_at:
  "write_file t l c = Inr t' \<Longrightarrow> dir_at t' l' = dir_at t l'"
proof (induction l arbitrary: t t' l')
  case Nil
  then show ?case by (cases t) auto
next
  case (Cons n ns)
  then obtain es where t: "t = Dir es" by (cases t) auto
  show ?case
  proof (cases "map_of es n")
    case None
    with Cons.prems t have ns: "ns = []" and t': "t' = Dir (es @ [(n, File c)])"
      by (auto split: if_splits)
    show ?thesis
    proof (cases l')
      case Nil
      then show ?thesis by (simp add: t t')
    next
      case (Cons m ms)
      then show ?thesis using None
        by (auto simp: t t' ns map_of_append_new simp del: map_of_append)
    qed
  next
    case (Some ch)
    with Cons.prems t obtain ch' where w: "write_file ch ns c = Inr ch'" and t': "t' = Dir (AList.update n ch' es)"
      by (auto split: sum.splits)
    show ?thesis
    proof (cases l')
      case Nil
      then show ?thesis by (simp add: t t')
    next
      case (Cons m ms)
      then show ?thesis using Some Cons.IH[OF w, of ms]
        by (auto simp: t t' update_conv')
    qed
  qed
qed


lemma write_names:
  "write_file t l c = Inr t' \<Longrightarrow>
   set (names_at t' d) \<subseteq> set (names_at t d) \<union> (if l \<noteq> [] \<and> butlast l = d then {last l} else {})"
proof (induction l arbitrary: t t' d)
  case Nil
  then show ?case by (cases t) auto
next
  case (Cons n ns)
  then obtain es where t: "t = Dir es" by (cases t) auto
  show ?case
  proof (cases "map_of es n")
    case None
    with Cons.prems t have ns: "ns = []" and t': "t' = Dir (es @ [(n, File c)])"
      by (auto split: if_splits)
    show ?thesis
    proof (cases d)
      case Nil
      then show ?thesis by (simp add: t t' ns)
    next
      case (Cons m ms)
      then show ?thesis using None
        by (auto simp: t t' ns map_of_append_new simp del: map_of_append)
    qed
  next
    case (Some ch)
    with Cons.prems t obtain ch' where w: "write_file ch ns c = Inr ch'" and t': "t' = Dir (AList.update n ch' es)"
      by (auto split: sum.splits)
    have nin: "n \<in> fst ` set es" using Some map_of_eq_None_iff[of es n] by auto
    show ?thesis
    proof (cases d)
      case Nil
      then show ?thesis using nin by (auto simp: t t' update_keys)
    next
      case (Cons m ms)
      then show ?thesis using Some Cons.IH[OF w, of ms]
        by (auto simp: t t' update_conv' split: if_splits)
    qed
  qed
qed

lemma fresh_file_at: "file_at (fresh_dirs ns) l = None"
  by (induction ns arbitrary: l) (case_tac l; simp)+

lemma fresh_dir_at: "dir_at (fresh_dirs ns) l = prefix l ns"
proof (induction ns arbitrary: l)
  case Nil
  then show ?case by (cases l) auto
next
  case (Cons n ns)
  then show ?case by (cases l) auto
qed

lemma fresh_wf: "(\<forall>n\<in>set ns. valid_name n) \<Longrightarrow> wf_node (fresh_dirs ns)"
  by (induction ns) auto

lemma mkdirp_file_at:
  "mkdirp t l = Inr t' \<Longrightarrow> file_at t' l' = file_at t l'"
proof (induction l arbitrary: t t' l')
  case Nil
  then show ?case by (cases t) auto
next
  case (Cons n ns)
  then obtain es where t: "t = Dir es" by (cases t) auto
  show ?case
  proof (cases "map_of es n")
    case None
    with Cons.prems t have t': "t' = Dir (es @ [(n, fresh_dirs ns)])" by auto
    show ?thesis
    proof (cases l')
      case Nil
      then show ?thesis by (simp add: t t')
    next
      case (Cons m ms)
      then show ?thesis using None
        by (auto simp: t t' map_of_append_new fresh_file_at simp del: map_of_append)
    qed
  next
    case (Some ch)
    with Cons.prems t obtain ch' where w: "mkdirp ch ns = Inr ch'" and t': "t' = Dir (AList.update n ch' es)"
      by (auto split: sum.splits)
    show ?thesis
    proof (cases l')
      case Nil
      then show ?thesis by (simp add: t t')
    next
      case (Cons m ms)
      then show ?thesis using Some Cons.IH[OF w, of ms]
        by (auto simp: t t' update_conv')
    qed
  qed
qed

lemma mkdirp_dir_at:
  "mkdirp t l = Inr t' \<Longrightarrow> dir_at t' l' = (dir_at t l' \<or> prefix l' l)"
proof (induction l arbitrary: t t' l')
  case Nil
  then show ?case by (cases t) auto
next
  case (Cons n ns)
  then obtain es where t: "t = Dir es" by (cases t) auto
  show ?case
  proof (cases "map_of es n")
    case None
    with Cons.prems t have t': "t' = Dir (es @ [(n, fresh_dirs ns)])" by auto
    show ?thesis
    proof (cases l')
      case Nil
      then show ?thesis by (simp add: t t')
    next
      case (Cons m ms)
      then show ?thesis using None
        by (auto simp: t t' map_of_append_new fresh_dir_at simp del: map_of_append)
    qed
  next
    case (Some ch)
    with Cons.prems t obtain ch' where w: "mkdirp ch ns = Inr ch'" and t': "t' = Dir (AList.update n ch' es)"
      by (auto split: sum.splits)
    show ?thesis
    proof (cases l')
      case Nil
      then show ?thesis by (simp add: t t')
    next
      case (Cons m ms)
      then show ?thesis using Some Cons.IH[OF w, of ms]
        by (auto simp: t t' update_conv')
    qed
  qed
qed


lemma wf_update:
  "\<forall>e\<in>set es. valid_name (fst e) \<and> wf_node (snd e) \<Longrightarrow> valid_name n \<Longrightarrow> wf_node ch \<Longrightarrow>
   \<forall>e\<in>set (AList.update n ch es). valid_name (fst e) \<and> wf_node (snd e)"
  by (induction es) auto

lemma wf_map_of: "wf_node (Dir es) \<Longrightarrow> map_of es n = Some ch \<Longrightarrow> valid_name n \<and> wf_node ch"
proof -
  assume w: "wf_node (Dir es)" and m: "map_of es n = Some ch"
  from m have "(n, ch) \<in> set es" by (rule map_of_SomeD)
  with w show ?thesis by fastforce
qed

lemma mkdirp_wf:
  "wf_node t \<Longrightarrow> (\<forall>n\<in>set l. valid_name n) \<Longrightarrow> mkdirp t l = Inr t' \<Longrightarrow> wf_node t'"
proof (induction l arbitrary: t t')
  case Nil
  then show ?case by (cases t) auto
next
  case (Cons n ns)
  then obtain es where t: "t = Dir es" by (cases t) auto
  show ?case
  proof (cases "map_of es n")
    case None
    with Cons.prems t have t': "t' = Dir (es @ [(n, fresh_dirs ns)])" by auto
    show ?thesis using Cons.prems(1,2) by (auto simp: t t' fresh_wf)
  next
    case (Some ch)
    with Cons.prems t obtain ch' where w: "mkdirp ch ns = Inr ch'" and t': "t' = Dir (AList.update n ch' es)"
      by (auto split: sum.splits)
    have "wf_node ch" using wf_map_of Cons.prems(1) Some t by blast
    then have "wf_node ch'" using Cons.IH[OF _ _ w] Cons.prems(2) by simp
    then show ?thesis using wf_update[of es n ch'] Cons.prems(1,2) by (simp add: t t')
  qed
qed

lemma wf_names_at: "wf_node t \<Longrightarrow> \<forall>n\<in>set (names_at t l). valid_name n"
proof (induction l arbitrary: t)
  case Nil
  then show ?case by (cases t) auto
next
  case (Cons n ns)
  show ?case
  proof (cases t)
    case (File c)
    then show ?thesis by simp
  next
    case (Dir es)
    show ?thesis
    proof (cases "map_of es n")
      case None
      then show ?thesis by (simp add: Dir)
    next
      case (Some ch)
      then have "wf_node ch" using wf_map_of Cons.prems Dir by blast
      then show ?thesis using Cons.IH Some by (simp add: Dir)
    qed
  qed
qed

section \<open>The loop body and the loop\<close>

lemma locate_cong: "cwd fs' = cwd fs \<Longrightarrow> locate fs' p = locate fs p"
  by (simp add: locate_def)

lemma lookup_cases:
  "(\<exists>c. lookup t l = Inr (File c) \<and> file_at t l = Some c \<and> \<not> dir_at t l) \<or>
   (\<exists>es. lookup t l = Inr (Dir es) \<and> file_at t l = None \<and> dir_at t l) \<or>
   (\<exists>e. lookup t l = Inl e \<and> file_at t l = None \<and> \<not> dir_at t l)"
  by (cases "lookup t l"; simp add: file_at_def dir_at_def split: node.splits)

lemma lookup_File_iff: "(lookup t l = Inr (File c)) = (file_at t l = Some c)"
  using lookup_cases[of t l] by auto


lemma lookup_Dir_names: "lookup t l = Inr (Dir es) \<Longrightarrow> names_at t l = map fst es"
  by (simp add: names_at_def)

text \<open>What a successful run of the loop body does.\<close>

lemma copy_try_Inr:
  assumes ok: "copy_try fs S T n = Inr fs'" and n: "valid_name n"
  shows "cwd fs' = cwd fs \<and> faults fs' = faults fs \<and>
         (\<forall>l. dir_at (tree fs') l = dir_at (tree fs) l) \<and>
         faults fs (Stat (path_join [S, n])) = None \<and>
         ((dir_at (tree fs) (locate fs S @ [n]) \<and> fs' = fs) \<or>
          (\<exists>c. file_at (tree fs) (locate fs S @ [n]) = Some c \<and>
               faults fs (CopyFile (path_join [S, n]) (path_join [T, n])) = None \<and>
               (\<forall>l. file_at (tree fs') l = (if l = locate fs T @ [n] then Some c else file_at (tree fs) l)) \<and>
               (\<forall>d. set (names_at (tree fs') d) \<subseteq> set (names_at (tree fs) d) \<union> (if d = locate fs T then {n} else {}))))"
proof -
  let ?sp = "path_join [S, n]" and ?tp = "path_join [T, n]"
  have sp: "?sp \<noteq> []" and tp: "?tp \<noteq> []" by (rule path_join_nonempty)+
  have ls: "locate fs ?sp = locate fs S @ [n]" and lt: "locate fs ?tp = locate fs T @ [n]"
    using n by (rule locate_path_join)+
  from ok obtain st where st: "fs_stat fs ?sp = Inr st"
    and rest: "(if isFile st then fs_copyFile fs ?sp ?tp else Inr fs) = Inr fs'"
    by (auto simp: copy_try_def Let_def split: sum.splits)
  from st have nf: "faults fs (Stat ?sp) = None"
    by (auto simp: fs_stat_def split: option.splits)
  from lookup_cases[of "tree fs" "locate fs S @ [n]"] show ?thesis
  proof (elim disjE exE conjE)
    fix c assume lk: "lookup (tree fs) (locate fs S @ [n]) = Inr (File c)"
      and fa: "file_at (tree fs) (locate fs S @ [n]) = Some c"
    have "isFile st" using st nf lk sp ls by (auto simp: fs_stat_def node_at_def)
    with rest have cp: "fs_copyFile fs ?sp ?tp = Inr fs'" by simp
    then have cf: "faults fs (CopyFile ?sp ?tp) = None"
      by (auto simp: fs_copyFile_def Let_def split: option.splits)
    from cp cf lk sp tp ls lt obtain t' where w: "write_file (tree fs) (locate fs T @ [n]) c = Inr t'"
      and fs': "fs' = fs\<lparr>tree := t'\<rparr>"
      by (auto simp: fs_copyFile_def Let_def node_at_def split: sum.splits)
    have "\<forall>l. file_at (tree fs') l = (if l = locate fs T @ [n] then Some c else file_at (tree fs) l)"
      using write_file_at[OF w] fs' by simp
    moreover have "\<forall>l. dir_at (tree fs') l = dir_at (tree fs) l"
      using write_dir_at[OF w] fs' by simp
    moreover have "\<forall>d. set (names_at (tree fs') d) \<subseteq> set (names_at (tree fs) d) \<union> (if d = locate fs T then {n} else {})"
    proof
      fix d
      have "set (names_at t' d) \<subseteq> set (names_at (tree fs) d) \<union> (if d = locate fs T then {n} else {})"
        using write_names[OF w, of d] by (cases "d = locate fs T") simp_all
      then show "set (names_at (tree fs') d) \<subseteq> set (names_at (tree fs) d) \<union> (if d = locate fs T then {n} else {})"
        using fs' by simp
    qed
    ultimately show ?thesis using fa cf nf fs' by auto
  next
    fix es assume lk: "lookup (tree fs) (locate fs S @ [n]) = Inr (Dir es)"
      and da: "dir_at (tree fs) (locate fs S @ [n])"
    have "\<not> isFile st" using st nf lk sp ls by (auto simp: fs_stat_def node_at_def)
    with rest have "fs' = fs" by simp
    then show ?thesis using da nf by simp
  next
    fix e assume lk: "lookup (tree fs) (locate fs S @ [n]) = Inl e"
    then have False using st nf sp ls by (simp add: fs_stat_def node_at_def)
    then show ?thesis ..
  qed
qed

lemma copies_inv_refl: "copies_inv G fs1 S T fs1"
  by (simp add: copies_inv_def)

lemma copies_invD:
  assumes "copies_inv G fs1 S T st"
  shows "cwd st = cwd fs1" and "faults st = faults fs1"
    and "\<forall>l. dir_at (tree st) l = dir_at (tree fs1) l"
    and "\<forall>l. file_at (tree st) l = file_at (tree fs1) l \<or>
           (\<exists>n\<in>G. l = locate fs1 T @ [n] \<and> file_at (tree fs1) (locate fs1 S @ [n]) \<noteq> None \<and>
                   file_at (tree st) l = file_at (tree fs1) (locate fs1 S @ [n]))"
    and "\<forall>d. set (names_at (tree st) d) \<subseteq> set (names_at (tree fs1) d) \<union> (if d = locate fs1 T then G else {})"
proof -
  note a = assms[unfolded copies_inv_def]
  show "cwd st = cwd fs1" using a by (elim conjE)
  show "faults st = faults fs1" using a by (elim conjE)
  show "\<forall>l. dir_at (tree st) l = dir_at (tree fs1) l" using a by (elim conjE)
  show "\<forall>l. file_at (tree st) l = file_at (tree fs1) l \<or>
           (\<exists>n\<in>G. l = locate fs1 T @ [n] \<and> file_at (tree fs1) (locate fs1 S @ [n]) \<noteq> None \<and>
                   file_at (tree st) l = file_at (tree fs1) (locate fs1 S @ [n]))" using a by (elim conjE)
  show "\<forall>d. set (names_at (tree st) d) \<subseteq> set (names_at (tree fs1) d) \<union> (if d = locate fs1 T then G else {})"
    using a by (elim conjE)
qed

lemma copies_inv_source:
  assumes inv: "copies_inv G fs1 S T st"
  shows "file_at (tree st) (locate fs1 S @ [n]) = file_at (tree fs1) (locate fs1 S @ [n])"
proof -
  from copies_invD(4)[OF inv, rule_format, of "locate fs1 S @ [n]"]
  show ?thesis by auto
qed

lemma copies_inv_step:
  assumes inv: "copies_inv G fs1 S T st" and n: "n \<in> G" and v: "valid_name n"
    and ok: "copy_try st S T n = Inr st'"
  shows "copies_inv G fs1 S T st'"
proof -
  note c = copies_invD(1)[OF inv] and f = copies_invD(2)[OF inv] and d = copies_invD(3)[OF inv]
    and fl = copies_invD(4)[OF inv] and nm = copies_invD(5)[OF inv]
  have lS: "locate st S = locate fs1 S" and lT: "locate st T = locate fs1 T"
    by (rule locate_cong[OF c])+
  note eff = copy_try_Inr[OF ok v]
  from eff have c': "cwd st' = cwd st" by (elim conjE)
  from eff have f': "faults st' = faults st" by (elim conjE)
  from eff have d': "\<forall>l. dir_at (tree st') l = dir_at (tree st) l" by (elim conjE)
  from eff have alt0: "(dir_at (tree st) (locate st S @ [n]) \<and> st' = st) \<or>
          (\<exists>c. file_at (tree st) (locate st S @ [n]) = Some c \<and>
               faults st (CopyFile (path_join [S, n]) (path_join [T, n])) = None \<and>
               (\<forall>l. file_at (tree st') l = (if l = locate st T @ [n] then Some c else file_at (tree st) l)) \<and>
               (\<forall>d. set (names_at (tree st') d) \<subseteq> set (names_at (tree st) d) \<union> (if d = locate st T then {n} else {})))"
    by (elim conjE)
  then have alt: "(dir_at (tree st) (locate st S @ [n]) \<and> st' = st) \<or>
          (\<exists>c. file_at (tree st) (locate st S @ [n]) = Some c \<and>
               (\<forall>l. file_at (tree st') l = (if l = locate st T @ [n] then Some c else file_at (tree st) l)) \<and>
               (\<forall>d. set (names_at (tree st') d) \<subseteq> set (names_at (tree st) d) \<union> (if d = locate st T then {n} else {})))"
    by (elim disjE exE conjE) (rule disjI1, simp, rule disjI2, blast)
  from alt show ?thesis
  proof
    assume "dir_at (tree st) (locate st S @ [n]) \<and> st' = st"
    then have "st' = st" ..
    then show ?thesis using inv by (simp only:)
  next
    assume "\<exists>c. file_at (tree st) (locate st S @ [n]) = Some c \<and>
               (\<forall>l. file_at (tree st') l = (if l = locate st T @ [n] then Some c else file_at (tree st) l)) \<and>
               (\<forall>d. set (names_at (tree st') d) \<subseteq> set (names_at (tree st) d) \<union> (if d = locate st T then {n} else {}))"
    then obtain c where src: "file_at (tree st) (locate fs1 S @ [n]) = Some c"
      and fl': "\<forall>l. file_at (tree st') l = (if l = locate fs1 T @ [n] then Some c else file_at (tree st) l)"
      and nm': "\<forall>d. set (names_at (tree st') d) \<subseteq> set (names_at (tree st) d) \<union> (if d = locate fs1 T then {n} else {})"
      unfolding lS lT by (elim exE conjE)
    have src1: "file_at (tree fs1) (locate fs1 S @ [n]) = Some c"
      using copies_inv_source[OF inv, of n] src by simp
    have A: "\<forall>l. file_at (tree st') l = file_at (tree fs1) l \<or>
           (\<exists>n\<in>G. l = locate fs1 T @ [n] \<and> file_at (tree fs1) (locate fs1 S @ [n]) \<noteq> None \<and>
                   file_at (tree st') l = file_at (tree fs1) (locate fs1 S @ [n]))"
    proof
      fix l
      show "file_at (tree st') l = file_at (tree fs1) l \<or>
           (\<exists>n\<in>G. l = locate fs1 T @ [n] \<and> file_at (tree fs1) (locate fs1 S @ [n]) \<noteq> None \<and>
                   file_at (tree st') l = file_at (tree fs1) (locate fs1 S @ [n]))"
      proof (cases "l = locate fs1 T @ [n]")
        case True
        have "file_at (tree st') l = Some c" using fl' True by simp
        then have "l = locate fs1 T @ [n] \<and> file_at (tree fs1) (locate fs1 S @ [n]) \<noteq> None \<and>
                   file_at (tree st') l = file_at (tree fs1) (locate fs1 S @ [n])"
          using True src1 by simp
        then show ?thesis using n by blast
      next
        case False
        then have "file_at (tree st') l = file_at (tree st) l" using fl' by simp
        then show ?thesis using fl[rule_format, of l] by (simp only:)
      qed
    qed
    have B: "\<forall>d. set (names_at (tree st') d) \<subseteq> set (names_at (tree fs1) d) \<union> (if d = locate fs1 T then G else {})"
    proof
      fix d
      show "set (names_at (tree st') d) \<subseteq> set (names_at (tree fs1) d) \<union> (if d = locate fs1 T then G else {})"
      proof (cases "d = locate fs1 T")
        case True
        have "set (names_at (tree st') d) \<subseteq> set (names_at (tree st) d) \<union> {n}"
          using nm'[rule_format, of d] True by simp
        moreover have "set (names_at (tree st) d) \<subseteq> set (names_at (tree fs1) d) \<union> G"
          using nm[rule_format, of d] True by simp
        ultimately show ?thesis using n True by auto
      next
        case False
        have "set (names_at (tree st') d) \<subseteq> set (names_at (tree st) d)"
          using nm'[rule_format, of d] False by simp
        moreover have "set (names_at (tree st) d) \<subseteq> set (names_at (tree fs1) d)"
          using nm[rule_format, of d] False by simp
        ultimately show ?thesis using False by auto
      qed
    qed
    have C: "cwd st' = cwd fs1" using c c' by simp
    have F: "faults st' = faults fs1" using f f' by simp
    have D: "\<forall>l. dir_at (tree st') l = dir_at (tree fs1) l" using d d' by simp
    show ?thesis unfolding copies_inv_def
      by (intro conjI) (rule C, rule F, rule D, rule A, rule B)
  qed
qed

lemma copies_inv_loop:
  assumes inv: "copies_inv G fs1 S T st" and sub: "set files \<subseteq> G" and v: "\<forall>n\<in>G. valid_name n"
    and run: "copy_loop S T files (errs, st) = (errs', st')"
  shows "copies_inv G fs1 S T st'"
  using inv sub run
proof (induction files arbitrary: errs st)
  case Nil
  then show ?case by simp
next
  case (Cons n files)
  show ?case
  proof (cases "copy_try st S T n")
    case (Inl e)
    then show ?thesis using Cons by simp
  next
    case (Inr st1)
    have "copies_inv G fs1 S T st1"
      using copies_inv_step[OF Cons.prems(1) _ _ Inr] Cons.prems(2) v by simp
    then show ?thesis using Cons.IH[of st1 errs] Cons.prems Inr by simp
  qed
qed


lemma copy_try_in_sync:
  assumes ok: "copy_try st S T n = Inr st'" and v: "valid_name n"
  shows "in_sync st' S T n"
proof -
  note eff = copy_try_Inr[OF ok v]
  from eff have c': "cwd st' = cwd st" by (elim conjE)
  from eff have f': "faults st' = faults st" by (elim conjE)
  from eff have nf: "faults st (Stat (path_join [S, n])) = None" by (elim conjE)
  from eff have alt: "(dir_at (tree st) (locate st S @ [n]) \<and> st' = st) \<or>
          (\<exists>c. file_at (tree st) (locate st S @ [n]) = Some c \<and>
               faults st (CopyFile (path_join [S, n]) (path_join [T, n])) = None \<and>
               (\<forall>l. file_at (tree st') l = (if l = locate st T @ [n] then Some c else file_at (tree st) l)) \<and>
               (\<forall>d. set (names_at (tree st') d) \<subseteq> set (names_at (tree st) d) \<union> (if d = locate st T then {n} else {})))"
    by (elim conjE)
  have lS: "locate st' S = locate st S" and lT: "locate st' T = locate st T"
    by (rule locate_cong[OF c'])+
  from alt show ?thesis
  proof (elim disjE exE conjE)
    assume "dir_at (tree st) (locate st S @ [n])" "st' = st"
    then show ?thesis using nf by (simp add: in_sync_def)
  next
    fix c assume f: "file_at (tree st) (locate st S @ [n]) = Some c"
      and cf: "faults st (CopyFile (path_join [S, n]) (path_join [T, n])) = None"
      and fl: "\<forall>l. file_at (tree st') l = (if l = locate st T @ [n] then Some c else file_at (tree st) l)"
    have "file_at (tree st') (locate st T @ [n]) = Some c" using fl by simp
    moreover have "file_at (tree st') (locate st S @ [n]) = Some c" using fl f by simp
    ultimately show ?thesis using nf cf f' lS lT by (simp add: in_sync_def)
  qed
qed

lemma in_sync_preserved:
  assumes s: "in_sync st S T n" and ok: "copy_try st S T m = Inr st'"
    and vn: "valid_name n" and vm: "valid_name m"
  shows "in_sync st' S T n"
proof -
  note eff = copy_try_Inr[OF ok vm]
  from eff have c': "cwd st' = cwd st" by (elim conjE)
  from eff have f': "faults st' = faults st" by (elim conjE)
  from eff have d': "\<forall>l. dir_at (tree st') l = dir_at (tree st) l" by (elim conjE)
  from eff have alt: "(dir_at (tree st) (locate st S @ [m]) \<and> st' = st) \<or>
          (\<exists>c. file_at (tree st) (locate st S @ [m]) = Some c \<and>
               faults st (CopyFile (path_join [S, m]) (path_join [T, m])) = None \<and>
               (\<forall>l. file_at (tree st') l = (if l = locate st T @ [m] then Some c else file_at (tree st) l)) \<and>
               (\<forall>d. set (names_at (tree st') d) \<subseteq> set (names_at (tree st) d) \<union> (if d = locate st T then {m} else {})))"
    by (elim conjE)
  have lS: "locate st' S = locate st S" and lT: "locate st' T = locate st T"
    by (rule locate_cong[OF c'])+
  from s have nf: "faults st (Stat (path_join [S, n])) = None" by (simp add: in_sync_def)
  from s have salt: "dir_at (tree st) (locate st S @ [n]) \<or>
       (\<exists>c. file_at (tree st) (locate st S @ [n]) = Some c \<and>
            faults st (CopyFile (path_join [S, n]) (path_join [T, n])) = None \<and>
            file_at (tree st) (locate st T @ [n]) = Some c)" by (simp add: in_sync_def)
  from alt show ?thesis
  proof (elim disjE exE conjE)
    assume "st' = st"
    then show ?thesis using s by simp
  next
    fix c assume f: "file_at (tree st) (locate st S @ [m]) = Some c"
      and fl: "\<forall>l. file_at (tree st') l = (if l = locate st T @ [m] then Some c else file_at (tree st) l)"
    from salt show ?thesis
    proof (elim disjE exE conjE)
      assume "dir_at (tree st) (locate st S @ [n])"
      then show ?thesis using nf d' f' lS lT by (simp add: in_sync_def)
    next
      fix c' assume fn: "file_at (tree st) (locate st S @ [n]) = Some c'"
        and cf: "faults st (CopyFile (path_join [S, n]) (path_join [T, n])) = None"
        and tn: "file_at (tree st) (locate st T @ [n]) = Some c'"
      have a: "file_at (tree st') (locate st S @ [n]) = Some c'"
        using fl fn f by auto
      have b: "file_at (tree st') (locate st T @ [n]) = Some c'"
        using fl tn fn f by auto
      show ?thesis using a b nf cf f' lS lT by (simp add: in_sync_def)
    qed
  qed
qed

lemma copy_loop_errs:
  "copy_loop S T files (errs, st) =
     (errs @ fst (copy_loop S T files ([], st)), snd (copy_loop S T files ([], st)))"
proof (induction files arbitrary: errs st)
  case Nil
  then show ?case by simp
next
  case (Cons n files)
  show ?case
  proof (cases "copy_try st S T n")
    case (Inl e)
    show ?thesis
      using Cons.IH[of "errs @ [operation_error (''Failed to copy '' @ n @ '': '' @ message_or e ''Unknown error'')]" st]
        Cons.IH[of "[operation_error (''Failed to copy '' @ n @ '': '' @ message_or e ''Unknown error'')]" st]
      by (simp add: Inl)
  next
    case (Inr st1)
    then show ?thesis using Cons.IH[of errs st1] by simp
  qed
qed

lemma copy_loop_ok_step:
  assumes "copy_loop S T (n # files) ([], st) = ([], st')"
  shows "\<exists>st1. copy_try st S T n = Inr st1 \<and> copy_loop S T files ([], st1) = ([], st')"
proof (cases "copy_try st S T n")
  case (Inl e)
  then have "fst (copy_loop S T (n # files) ([], st)) \<noteq> []"
    using copy_loop_errs[of S T files "[operation_error (''Failed to copy '' @ n @ '': '' @ message_or e ''Unknown error'')]" st]
    by simp
  then show ?thesis using assms by simp
next
  case (Inr st1)
  then show ?thesis using assms by simp
qed

lemma in_sync_loop_preserved:
  assumes "copy_loop S T files ([], st) = ([], st')" and "in_sync st S T n"
    and "valid_name n" and "\<forall>m\<in>set files. valid_name m"
  shows "in_sync st' S T n"
  using assms
proof (induction files arbitrary: st)
  case Nil
  then show ?case by simp
next
  case (Cons m files)
  from copy_loop_ok_step[OF Cons.prems(1)] obtain st1 where
    s1: "copy_try st S T m = Inr st1" and r: "copy_loop S T files ([], st1) = ([], st')" by blast
  have "in_sync st1 S T n"
    using in_sync_preserved[OF Cons.prems(2) s1 Cons.prems(3)] Cons.prems(4) by simp
  then show ?case using Cons.IH[OF r _ Cons.prems(3)] Cons.prems(4) by simp
qed

lemma copy_loop_ok_in_sync:
  assumes "copy_loop S T files ([], st) = ([], st')" and "\<forall>m\<in>set files. valid_name m"
  shows "\<forall>n\<in>set files. in_sync st' S T n"
  using assms
proof (induction files arbitrary: st)
  case Nil
  then show ?case by simp
next
  case (Cons m files)
  from copy_loop_ok_step[OF Cons.prems(1)] obtain st1 where
    s1: "copy_try st S T m = Inr st1" and r: "copy_loop S T files ([], st1) = ([], st')" by blast
  have vm: "valid_name m" and vf: "\<forall>m\<in>set files. valid_name m" using Cons.prems(2) by simp_all
  have "in_sync st1 S T m" using copy_try_in_sync[OF s1 vm] .
  then have "in_sync st' S T m" using in_sync_loop_preserved[OF r _ vm vf] by simp
  moreover have "\<forall>n\<in>set files. in_sync st' S T n" using Cons.IH[OF r vf] .
  ultimately show ?case by simp
qed

lemma copy_loop_noop:
  assumes "\<forall>n\<in>set files. copy_try st S T n = Inr st"
  shows "copy_loop S T files (errs, st) = (errs, st)"
  using assms by (induction files) simp_all

section \<open>The calls of the module and the shape of a run\<close>

lemma file_of_alt: "file_of fs p = (if p = [] then None else file_at (tree fs) (locate fs p))"
  by (simp add: file_of_def node_at_def file_at_def)



lemma fs_access_iff:
  "(fs_access fs p = Inr u) = (faults fs (Access p) = None \<and> path_exists fs p)"
  by (auto simp: fs_access_def path_exists_def split: option.splits sum.splits)

lemma fs_readdir_iff:
  "(fs_readdir fs p = Inr files) =
     (faults fs (Readdir p) = None \<and> is_directory fs p \<and> files = names_at (tree fs) (locate fs p))"
  by (auto simp: fs_readdir_def is_directory_def node_at_def names_at_def
      split: option.splits sum.splits node.splits if_splits)

lemma fs_mkdir_Inr:
  assumes "fs_mkdir fs T = Inr fs1"
  shows "cwd fs1 = cwd fs" and "faults fs1 = faults fs" and "T \<noteq> []"
    and "faults fs (Mkdir T) = None"
    and "\<forall>l. file_at (tree fs1) l = file_at (tree fs) l"
    and "\<forall>l. dir_at (tree fs1) l = (dir_at (tree fs) l \<or> prefix l (locate fs T))"
    and "wf_fs fs \<Longrightarrow> wf_fs fs1"
proof -
  from assms obtain t where m: "mkdirp (tree fs) (locate fs T) = Inr t" and fs1: "fs1 = fs\<lparr>tree := t\<rparr>"
    and T: "T \<noteq> []" and nf: "faults fs (Mkdir T) = None"
    by (auto simp: fs_mkdir_def split: option.splits if_splits sum.splits)
  show "cwd fs1 = cwd fs" "faults fs1 = faults fs" "T \<noteq> []" "faults fs (Mkdir T) = None"
    using fs1 T nf by simp_all
  show "\<forall>l. file_at (tree fs1) l = file_at (tree fs) l" using mkdirp_file_at[OF m] fs1 by simp
  show "\<forall>l. dir_at (tree fs1) l = (dir_at (tree fs) l \<or> prefix l (locate fs T))"
    using mkdirp_dir_at[OF m] fs1 by simp
  show "wf_fs fs \<Longrightarrow> wf_fs fs1"
    using mkdirp_wf[OF _ locate_valid m] fs1 by (simp add: wf_fs_def)
qed


text \<open>The decomposition of a run.\<close>

lemma sync_cases:
  "(\<exists>e. fs_access fs S = Inl e \<and> copyGlobalRulesFiles fs S T =
        (FailedResponse [operation_error (''Source directory does not exist: '' @ S)], fs)) \<or>
   (\<exists>u e. fs_access fs S = Inr u \<and> fs_mkdir fs T = Inl e \<and> copyGlobalRulesFiles fs S T =
        (FailedResponse [operation_error (message_or e ''Unknown error occurred'')], fs)) \<or>
   (\<exists>u fs1 e. fs_access fs S = Inr u \<and> fs_mkdir fs T = Inr fs1 \<and> fs_readdir fs1 S = Inl e \<and>
        copyGlobalRulesFiles fs S T =
        (FailedResponse [operation_error (message_or e ''Unknown error occurred'')], fs1)) \<or>
   (\<exists>u fs1 files errs fs2. fs_access fs S = Inr u \<and> fs_mkdir fs T = Inr fs1 \<and> fs_readdir fs1 S = Inr files \<and>
        copy_loop S T (filter is_global files) ([], fs1) = (errs, fs2) \<and>
        copyGlobalRulesFiles fs S T = (if errs = [] then SuccessResponse else FailedResponse errs, fs2))"
proof (cases "fs_access fs S")
  case (Inl e)
  then show ?thesis by (simp add: copyGlobalRulesFiles_def)
next
  case a: (Inr u)
  show ?thesis
  proof (cases "fs_mkdir fs T")
    case (Inl e)
    then show ?thesis using a by (simp add: copyGlobalRulesFiles_def)
  next
    case m: (Inr fs1)
    show ?thesis
    proof (cases "fs_readdir fs1 S")
      case (Inl e)
      then show ?thesis using a m by (simp add: copyGlobalRulesFiles_def)
    next
      case r: (Inr files)
      obtain errs fs2 where l: "copy_loop S T (filter is_global files) ([], fs1) = (errs, fs2)"
        by (cases "copy_loop S T (filter is_global files) ([], fs1)") auto
      have g: "(\<lambda>file. startsWith file ''g-'') = is_global" by (simp add: is_global_def fun_eq_iff)
      have "copyGlobalRulesFiles fs S T = (if errs = [] then SuccessResponse else FailedResponse errs, fs2)"
      proof (cases "filter is_global files = []")
        case True
        then show ?thesis using a m r l by (simp add: copyGlobalRulesFiles_def g)
      next
        case False
        then show ?thesis using a m r l by (simp add: copyGlobalRulesFiles_def g Let_def)
      qed
      then show ?thesis using a m r l by blast
    qed
  qed
qed

lemma copy_response_ok:
  "success (fst (copyGlobalRulesFiles fs S T)) = (errors (fst (copyGlobalRulesFiles fs S T)) = [])"
  using sync_cases[of fs S T] by (elim disjE exE conjE) simp_all

lemma handleLoad_Inl:
  "loadConfig h fs = Inl e \<Longrightarrow> handleLoadGlobalRules this h fs request = (FailedResponse [e], this, fs)"
  by (simp add: handleLoadGlobalRules_def)

lemma handleSave_Inl:
  "loadConfig h fs = Inl e \<Longrightarrow> handleSaveGlobalRules this h fs request = (FailedResponse [e], this, fs)"
  by (simp add: handleSaveGlobalRules_def)

lemma handleLoad_Inr:
  "loadConfig h fs = Inr cfg \<Longrightarrow>
   handleLoadGlobalRules this h fs request =
     (fst (copyGlobalRulesFiles fs (the (globalRulesSourceDir cfg)) (path_join [path request, ''.cursor'', ''rules''])),
      this,
      snd (copyGlobalRulesFiles fs (the (globalRulesSourceDir cfg)) (path_join [path request, ''.cursor'', ''rules''])))"
  by (simp add: handleLoadGlobalRules_def Let_def case_prod_beta)

lemma handleSave_Inr:
  "loadConfig h fs = Inr cfg \<Longrightarrow>
   handleSaveGlobalRules this h fs request =
     (fst (copyGlobalRulesFiles fs (path_join [path request, ''.cursor'', ''rules'']) (the (globalRulesSourceDir cfg))),
      this,
      snd (copyGlobalRulesFiles fs (path_join [path request, ''.cursor'', ''rules'']) (the (globalRulesSourceDir cfg))))"
  by (simp add: handleSaveGlobalRules_def Let_def case_prod_beta)

lemma copy_loop_trace:
  "copy_loop S T files (errs, fs) =
     (errs @ concat (map attempt_errors (copy_trace S T files fs)),
      foldl attempt_state fs (copy_trace S T files fs))"
proof (induction files arbitrary: errs fs)
  case Nil
  then show ?case by simp
next
  case (Cons f files)
  show ?case
  proof (cases "copy_try fs S T f")
    case (Inl e)
    then show ?thesis
      using Cons.IH[of "errs @ [operation_error (''Failed to copy '' @ f @ '': '' @ message_or e ''Unknown error'')]" fs]
      by (simp add: attempt_errors_def attempt_state_def operation_error_def)
  next
    case (Inr fs')
    then show ?thesis using Cons.IH[of errs fs']
      by (simp add: attempt_errors_def attempt_state_def)
  qed
qed

lemma copy_trace_names: "map fst (copy_trace S T files fs) = files"
  by (induction files arbitrary: fs) simp_all

text \<open>Definitions unfolded when a run is evaluated on an example state.\<close>

lemmas run_defs =
  path_join_def path_normalize_def path_resolve_def normalizeString_def norm_step_def locate_def node_at_def
  fs_access_def fs_mkdir_def fs_readdir_def fs_stat_def fs_copyFile_def fs_readFile_def
  copy_try_def sys_error_def errno_text_def quoted_def message_or_def startsWith_def is_global_def
  operation_error_def config_error_def Let_def

section \<open>The configuration loader\<close>

lemma loadConfig_etype: "loadConfig h fs = Inl e \<Longrightarrow> etype e = CONFIG_PARSING_ERROR"
  by (auto simp: loadConfig_def loadConfig_try_def config_error_def Let_def
      split: sum.splits if_splits option.splits json.splits)

lemma config_store_bad_fails:
  assumes "config_store_bad h fs"
  shows "\<exists>e. loadConfig h fs = Inl e"
proof -
  let ?cp = "path_resolve (cwd fs) [dirname h, ''../config.json'']"
  show ?thesis
  proof (cases "fs_access fs ?cp")
    case (Inl e)
    then show ?thesis by (simp add: loadConfig_def)
  next
    case (Inr u)
    then have ex: "path_exists fs ?cp" using fs_access_iff by blast
    show ?thesis
    proof (cases "loadConfig_try h fs ?cp")
      case (Inl e)
      then show ?thesis using Inr by (simp add: loadConfig_def)
    next
      case r: (Inr res)
      have "\<exists>e. res = Inl e"
      proof (cases "fs_readFile fs ?cp")
        case (Inl e)
        then show ?thesis using r by (simp add: loadConfig_try_def)
      next
        case rf: (Inr content)
        show ?thesis
        proof (cases "JSON_parse h content")
          case (Inl e)
          then show ?thesis using r rf by (simp add: loadConfig_try_def)
        next
          case p: (Inr parsed)
          from assms ex rf p obtain kvs where kv: "parsed = JObject kvs"
            and b: "(case map_of kvs ''globalRulesSourceDir'' of
                     None \<Rightarrow> True
                   | Some (JString s) \<Rightarrow> trim s = [] \<or> \<not> path_exists fs s
                   | Some v \<Rightarrow> False)"
            by (cases parsed) (simp_all add: config_store_bad_def)
          show ?thesis
          proof (cases "map_of kvs ''globalRulesSourceDir''")
            case None
            then show ?thesis using r rf p kv
              by (auto simp: loadConfig_try_def get_property_def)
          next
            case (Some v)
            with b obtain s where v: "v = JString s" and bs: "trim s = [] \<or> \<not> path_exists fs s"
              by (cases v) simp_all
            have "\<not> path_exists fs s \<Longrightarrow> \<exists>e. fs_access fs s = Inl e"
              using fs_access_iff[of fs s "()"] by (cases "fs_access fs s") auto
            then show ?thesis using r rf p kv Some v bs
              by (auto simp: loadConfig_try_def get_property_def split: if_splits sum.splits)
          qed
        qed
      qed
      then show ?thesis using Inr r by (auto simp: loadConfig_def)
    qed
  qed
qed

lemma config_path_ex: "path_resolve ''/'' [''/opt/global-mdc/dist'', ''../config.json''] = ''/opt/global-mdc/config.json''"
  by (simp add: run_defs)

lemma loadConfig_blank:
  "loadConfig host_ex (fs_cfg (config_text ''  '')) =
     Inl (ErrorRecord CONFIG_PARSING_ERROR ''globalRulesSourceDir is not set or empty in config.json'')"
  by (simp add: loadConfig_def loadConfig_try_def get_property_def trim_def isWhiteSpace_def
      host_ex_def fs_cfg_def config_text_def config_path_ex run_defs)

lemma loadConfig_missing:
  "loadConfig host_ex fs_nocfg =
     Inl (ErrorRecord CONFIG_PARSING_ERROR ''Configuration file /opt/global-mdc/config.json not found'')"
  by (simp add: loadConfig_def host_ex_def fs_nocfg_def config_path_ex run_defs)

lemma loadConfig_malformed:
  "loadConfig host_ex (fs_cfg ''{ globalRulesSourceDir'') =
     Inl (ErrorRecord CONFIG_PARSING_ERROR ''Failed to parse config.json: Unexpected token'')"
  by (simp add: loadConfig_def loadConfig_try_def host_ex_def fs_cfg_def config_text_def config_path_ex run_defs)

lemma loadConfig_no_field:
  "loadConfig host_ex (fs_cfg ''{}'') =
     Inl (ErrorRecord CONFIG_PARSING_ERROR ''globalRulesSourceDir is not set or empty in config.json'')"
  by (simp add: loadConfig_def loadConfig_try_def get_property_def host_ex_def fs_cfg_def config_text_def config_path_ex run_defs)

lemma loadConfig_gone:
  "loadConfig host_ex (fs_cfg (config_text ''/gone'')) =
     Inl (ErrorRecord CONFIG_PARSING_ERROR ''Global rules directory does not exist: /gone'')"
  by (simp add: loadConfig_def loadConfig_try_def get_property_def trim_def isWhiteSpace_def
      host_ex_def fs_cfg_def config_text_def config_path_ex run_defs)

lemma bad_stores:
  "config_store_bad host_ex fs_nocfg"
  "config_store_bad host_ex (fs_cfg ''{ globalRulesSourceDir'')"
  "config_store_bad host_ex (fs_cfg ''{}'')"
  "config_store_bad host_ex (fs_cfg (config_text ''  ''))"
  "config_store_bad host_ex (fs_cfg (config_text ''/gone''))"
  by (simp_all add: config_store_bad_def path_exists_def trim_def isWhiteSpace_def
      host_ex_def fs_cfg_def fs_nocfg_def config_text_def config_path_ex run_defs)

lemma loadConfig_rules:
  "loadConfig host_ex (fs_cfg (config_text ''/rules'')) = Inr \<lparr>globalRulesSourceDir = Some ''/rules''\<rparr>"
  by (simp add: loadConfig_def loadConfig_try_def get_property_def trim_def isWhiteSpace_def
      host_ex_def fs_cfg_def config_text_def config_path_ex run_defs)

lemma sync_c10:
  "copyGlobalRulesFiles (fs_cfg (config_text ''/rules'')) ''/rules'' ''/p/.cursor/rules'' =
     (SuccessResponse, fs_c10_after_load)"
  by (simp add: copyGlobalRulesFiles_def fs_cfg_def fs_c10_after_load_def config_text_def run_defs)

lemma load_c10:
  "handleLoadGlobalRules this host_ex (fs_cfg (config_text ''/rules'')) \<lparr>path = ''/p''\<rparr> =
     (SuccessResponse, this, fs_c10_after_load)"
proof -
  have "path_join [''/p'', ''.cursor'', ''rules''] = ''/p/.cursor/rules''" by (simp add: run_defs)
  then show ?thesis using handleLoad_Inr[OF loadConfig_rules, of this "\<lparr>path = ''/p''\<rparr>"] sync_c10 by simp
qed

lemma loadConfig_edited:
  "loadConfig host_ex fs_c10_edited =
     Inl (ErrorRecord CONFIG_PARSING_ERROR ''globalRulesSourceDir is not set or empty in config.json'')"
  by (simp add: loadConfig_def loadConfig_try_def get_property_def trim_def isWhiteSpace_def
      host_ex_def fs_c10_edited_def config_text_def config_path_ex run_defs)

section \<open>The effect of a synchronization\<close>

lemma readdir_valid:
  assumes "wf_fs fs1" and "fs_readdir fs1 S = Inr files"
  shows "\<forall>n\<in>set files. valid_name n"
  using assms wf_names_at[of "tree fs1" "locate fs1 S"]
  by (simp add: fs_readdir_iff wf_fs_def)

lemma sync_loop_inv:
  assumes wf: "wf_fs fs" and m: "fs_mkdir fs T = Inr fs1" and r: "fs_readdir fs1 S = Inr files"
    and l: "copy_loop S T (filter is_global files) ([], fs1) = (errs, fs')"
  shows "copies_inv (set (filter is_global files)) fs1 S T fs'"
proof -
  have v: "\<forall>n\<in>set files. valid_name n"
    using readdir_valid[OF fs_mkdir_Inr(7)[OF m wf] r] .
  show ?thesis
    by (rule copies_inv_loop[OF copies_inv_refl _ _ l]) (use v in auto)
qed

lemma sync_effect:
  assumes wf: "wf_fs fs" and run: "copyGlobalRulesFiles fs S T = (r, fs')"
  shows "cwd fs' = cwd fs" and "faults fs' = faults fs"
    and "\<forall>l. dir_at (tree fs') l = (dir_at (tree fs) l \<or> (fs' \<noteq> fs \<and> prefix l (locate fs T)))"
    and "\<forall>l. file_at (tree fs') l = file_at (tree fs) l \<or>
           (\<exists>n. is_global n \<and> valid_name n \<and> l = locate fs T @ [n] \<and>
                file_at (tree fs) (locate fs S @ [n]) \<noteq> None \<and>
                file_at (tree fs') l = file_at (tree fs) (locate fs S @ [n]))"
proof -
  have "cwd fs' = cwd fs \<and> faults fs' = faults fs \<and>
    (\<forall>l. dir_at (tree fs') l = (dir_at (tree fs) l \<or> (fs' \<noteq> fs \<and> prefix l (locate fs T)))) \<and>
    (\<forall>l. file_at (tree fs') l = file_at (tree fs) l \<or>
           (\<exists>n. is_global n \<and> valid_name n \<and> l = locate fs T @ [n] \<and>
                file_at (tree fs) (locate fs S @ [n]) \<noteq> None \<and>
                file_at (tree fs') l = file_at (tree fs) (locate fs S @ [n])))"
    using sync_cases[of fs S T]
  proof (elim disjE exE conjE)
    fix e assume "copyGlobalRulesFiles fs S T =
        (FailedResponse [operation_error (''Source directory does not exist: '' @ S)], fs)"
    then have "fs' = fs" using run by simp
    then show ?thesis by simp
  next
    fix u e assume "copyGlobalRulesFiles fs S T =
        (FailedResponse [operation_error (message_or e ''Unknown error occurred'')], fs)"
    then have "fs' = fs" using run by simp
    then show ?thesis by simp
  next
    fix u fs1 e assume m: "fs_mkdir fs T = Inr fs1" and "copyGlobalRulesFiles fs S T =
        (FailedResponse [operation_error (message_or e ''Unknown error occurred'')], fs1)"
    then have e: "fs' = fs1" using run by simp
    note M = fs_mkdir_Inr[OF m]
    have "\<forall>l. dir_at (tree fs1) l = (dir_at (tree fs) l \<or> (fs1 \<noteq> fs \<and> prefix l (locate fs T)))"
    proof
      fix l
      show "dir_at (tree fs1) l = (dir_at (tree fs) l \<or> (fs1 \<noteq> fs \<and> prefix l (locate fs T)))"
        using M(6)[rule_format, of l] by (cases "fs1 = fs") auto
    qed
    then show ?thesis using M(1,2,5) e by simp
  next
    fix u fs1 files errs fs2
    assume m: "fs_mkdir fs T = Inr fs1" and rd: "fs_readdir fs1 S = Inr files"
      and l: "copy_loop S T (filter is_global files) ([], fs1) = (errs, fs2)"
      and "copyGlobalRulesFiles fs S T = (if errs = [] then SuccessResponse else FailedResponse errs, fs2)"
    then have e: "fs' = fs2" using run by simp
    note M = fs_mkdir_Inr[OF m]
    have v: "\<forall>n\<in>set files. valid_name n" using readdir_valid[OF M(7)[OF wf] rd] .
    note I = copies_invD[OF sync_loop_inv[OF wf m rd l]]
    have lS: "locate fs1 S = locate fs S" and lT: "locate fs1 T = locate fs T"
      by (rule locate_cong[OF M(1)])+
    have D: "\<forall>l. dir_at (tree fs2) l = (dir_at (tree fs) l \<or> (fs2 \<noteq> fs \<and> prefix l (locate fs T)))"
    proof
      fix l
      have "dir_at (tree fs2) l = (dir_at (tree fs) l \<or> prefix l (locate fs T))"
        using I(3)[rule_format, of l] M(6)[rule_format, of l] by simp
      then show "dir_at (tree fs2) l = (dir_at (tree fs) l \<or> (fs2 \<noteq> fs \<and> prefix l (locate fs T)))"
        by (cases "fs2 = fs") auto
    qed
    have F: "\<forall>l. file_at (tree fs2) l = file_at (tree fs) l \<or>
           (\<exists>n. is_global n \<and> valid_name n \<and> l = locate fs T @ [n] \<and>
                file_at (tree fs) (locate fs S @ [n]) \<noteq> None \<and>
                file_at (tree fs2) l = file_at (tree fs) (locate fs S @ [n]))"
    proof
      fix l
      from I(4)[rule_format, of l]
      show "file_at (tree fs2) l = file_at (tree fs) l \<or>
           (\<exists>n. is_global n \<and> valid_name n \<and> l = locate fs T @ [n] \<and>
                file_at (tree fs) (locate fs S @ [n]) \<noteq> None \<and>
                file_at (tree fs2) l = file_at (tree fs) (locate fs S @ [n]))"
      proof
        assume "file_at (tree fs2) l = file_at (tree fs1) l"
        then show ?thesis using M(5) by simp
      next
        assume "\<exists>n\<in>set (filter is_global files). l = locate fs1 T @ [n] \<and>
            file_at (tree fs1) (locate fs1 S @ [n]) \<noteq> None \<and>
            file_at (tree fs2) l = file_at (tree fs1) (locate fs1 S @ [n])"
        then obtain n where "n \<in> set files" "is_global n" "l = locate fs T @ [n]"
            "file_at (tree fs) (locate fs S @ [n]) \<noteq> None"
            "file_at (tree fs2) l = file_at (tree fs) (locate fs S @ [n])"
          using M(5) lS lT by auto
        then show ?thesis using v by blast
      qed
    qed
    show ?thesis using D F I(1,2) M(1,2) e by simp
  qed
  then show "cwd fs' = cwd fs" and "faults fs' = faults fs"
    and "\<forall>l. dir_at (tree fs') l = (dir_at (tree fs) l \<or> (fs' \<noteq> fs \<and> prefix l (locate fs T)))"
    and "\<forall>l. file_at (tree fs') l = file_at (tree fs) l \<or>
           (\<exists>n. is_global n \<and> valid_name n \<and> l = locate fs T @ [n] \<and>
                file_at (tree fs) (locate fs S @ [n]) \<noteq> None \<and>
                file_at (tree fs') l = file_at (tree fs) (locate fs S @ [n]))"
    by blast+
qed

lemma sync_success:
  assumes wf: "wf_fs fs" and run: "copyGlobalRulesFiles fs S T = (SuccessResponse, fs')"
  shows "\<exists>fs1 files. fs_access fs S = Inr () \<and> fs_mkdir fs T = Inr fs1 \<and> fs_readdir fs1 S = Inr files \<and>
           copy_loop S T (filter is_global files) ([], fs1) = ([], fs') \<and>
           (\<forall>n\<in>set files. valid_name n) \<and>
           copies_inv (set (filter is_global files)) fs1 S T fs' \<and>
           (\<forall>n\<in>set (filter is_global files). in_sync fs' S T n)"
  using sync_cases[of fs S T]
proof (elim disjE exE conjE)
  fix u fs1 files errs fs2
  assume a: "fs_access fs S = Inr u" and m: "fs_mkdir fs T = Inr fs1" and rd: "fs_readdir fs1 S = Inr files"
    and l: "copy_loop S T (filter is_global files) ([], fs1) = (errs, fs2)"
    and c: "copyGlobalRulesFiles fs S T = (if errs = [] then SuccessResponse else FailedResponse errs, fs2)"
  from c run have e: "errs = []" "fs2 = fs'" by (auto split: if_splits)
  have l': "copy_loop S T (filter is_global files) ([], fs1) = ([], fs')" using l e by simp
  have v: "\<forall>n\<in>set files. valid_name n"
    using readdir_valid[OF fs_mkdir_Inr(7)[OF m wf] rd] .
  have vg: "\<forall>n\<in>set (filter is_global files). valid_name n" using v by simp
  have "copies_inv (set (filter is_global files)) fs1 S T fs'"
    using sync_loop_inv[OF wf m rd l'] .
  moreover have "\<forall>n\<in>set (filter is_global files). in_sync fs' S T n"
    using copy_loop_ok_in_sync[OF l' vg] .
  ultimately show ?thesis using a m rd l' v by auto
qed (use run in auto)

lemma lookup_snoc:
  "lookup t (l @ [n]) = Inr v \<Longrightarrow> \<exists>es. lookup t l = Inr (Dir es) \<and> map_of es n = Some v"
proof (induction l arbitrary: t)
  case Nil
  then show ?case by (cases t) (auto split: option.splits)
next
  case (Cons a l)
  then show ?case by (cases t) (auto split: option.splits)
qed

lemma file_in_names:
  assumes "file_at t (l @ [n]) = Some c"
  shows "n \<in> set (names_at t l)"
proof -
  from assms have "lookup t (l @ [n]) = Inr (File c)" using lookup_File_iff by blast
  from lookup_snoc[OF this] obtain es where es: "lookup t l = Inr (Dir es)" and "map_of es n = Some (File c)"
    by blast
  then have "(n, File c) \<in> set es" by (simp add: map_of_SomeD)
  then have "n \<in> fst ` set es" by force
  then show ?thesis using es by (simp add: names_at_def)
qed

lemma loadConfig_Inr:
  assumes "loadConfig h fs = Inr cfg"
  shows "\<exists>content kvs g.
           fs_access fs (path_resolve (cwd fs) [dirname h, ''../config.json'']) = Inr () \<and>
           fs_readFile fs (path_resolve (cwd fs) [dirname h, ''../config.json'']) = Inr content \<and>
           JSON_parse h content = Inr (JObject kvs) \<and>
           map_of kvs ''globalRulesSourceDir'' = Some (JString g) \<and>
           g \<noteq> [] \<and> trim g \<noteq> [] \<and> fs_access fs g = Inr () \<and>
           cfg = \<lparr>globalRulesSourceDir = Some g\<rparr>"
proof -
  let ?cp = "path_resolve (cwd fs) [dirname h, ''../config.json'']"
  from assms have a: "fs_access fs ?cp = Inr ()"
    by (cases "fs_access fs ?cp") (simp_all add: loadConfig_def)
  with assms have t: "loadConfig_try h fs ?cp = Inr (Inr cfg)"
    by (cases "loadConfig_try h fs ?cp") (simp_all add: loadConfig_def)
  then obtain content where rf: "fs_readFile fs ?cp = Inr content"
    by (cases "fs_readFile fs ?cp") (simp_all add: loadConfig_try_def)
  with t obtain parsed where p: "JSON_parse h content = Inr parsed"
    by (cases "JSON_parse h content") (simp_all add: loadConfig_try_def)
  with t rf obtain v where gp: "get_property parsed ''globalRulesSourceDir'' = Inr v"
    by (cases "get_property parsed ''globalRulesSourceDir''") (simp_all add: loadConfig_try_def)
  with t rf p have tr: "truthy v" by (auto simp: loadConfig_try_def split: if_splits)
  with t rf p gp obtain g where v: "v = Some (JString g)"
    by (cases v; cases "the v") (auto simp: loadConfig_try_def)
  with tr have g: "g \<noteq> []" by simp
  from t rf p gp v tr have tg: "trim g \<noteq> []" by (auto simp: loadConfig_try_def split: if_splits)
  with t rf p gp v tr have ag: "fs_access fs g = Inr ()" and cfg: "cfg = \<lparr>globalRulesSourceDir = Some g\<rparr>"
    by (auto simp: loadConfig_try_def split: if_splits sum.splits)
  from gp v obtain kvs where "parsed = JObject kvs" and "map_of kvs ''globalRulesSourceDir'' = Some (JString g)"
    by (cases parsed) (auto simp: get_property_def)
  then show ?thesis using a rf p g tg ag cfg by blast
qed

lemma loadConfig_configured:
  assumes "loadConfig h fs = Inr cfg"
  shows "\<exists>g. configured_dir h fs = Some g \<and> globalRulesSourceDir cfg = Some g"
  using loadConfig_Inr[OF assms] by (auto simp: configured_dir_def)

lemma file_of_join:
  assumes "valid_name n"
  shows "file_of fs (path_join [d, n]) = file_at (tree fs) (locate fs d @ [n])"
  using locate_path_join[OF assms, of fs d] path_join_nonempty[of "[d, n]"]
  by (simp add: file_of_alt)

lemma file_not_dir: "file_at t l = Some c \<Longrightarrow> \<not> dir_at t l"
  using lookup_cases[of t l] by auto





lemma wf_fs_c2: "wf_fs fs_c2"
  by (simp add: wf_fs_def fs_c2_def valid_name_def plain_def)

lemma sync_c2:
  "copyGlobalRulesFiles fs_c2 ''/rules'' ''/p/.cursor/rules'' = (SuccessResponse, fs_c2_after)"
  by (simp add: copyGlobalRulesFiles_def fs_c2_def fs_c2_after_def run_defs)

lemma names_c2: "names_at (tree fs_c2) (locate fs_c2 ''/rules'') = [''g-a.mdc'', ''g-b.mdc'', ''other.mdc'', ''g-sub'']"
  by (simp add: fs_c2_def run_defs)

lemma locate_c2:
  "locate fs_c2 ''/rules'' = [''rules'']"
  "locate fs_c2 ''/p/.cursor/rules'' = [''p'', ''.cursor'', ''rules'']"
  by (simp_all add: fs_c2_def run_defs)



lemma loadConfig_c8:
  "loadConfig host_ex fs_c8 = Inr \<lparr>globalRulesSourceDir = Some ''/rules''\<rparr>"
  by (simp add: loadConfig_def loadConfig_try_def get_property_def trim_def isWhiteSpace_def
      host_ex_def fs_c8_def config_text_def config_path_ex run_defs)

lemma sync_c8:
  "copyGlobalRulesFiles fs_c8 ''/p/.cursor/rules'' ''/rules'' = (SuccessResponse, fs_c8_after)"
  by (simp add: copyGlobalRulesFiles_def fs_c8_def fs_c8_after_def config_text_def run_defs)

lemma save_c8:
  "handleSaveGlobalRules this host_ex fs_c8 \<lparr>path = ''/p''\<rparr> = (SuccessResponse, this, fs_c8_after)"
proof -
  have "path_join [''/p'', ''.cursor'', ''rules''] = ''/p/.cursor/rules''" by (simp add: run_defs)
  then show ?thesis using handleSave_Inr[OF loadConfig_c8, of this "\<lparr>path = ''/p''\<rparr>"] sync_c8 by simp
qed







section \<open>The claims\<close>

text \<open>
  C1. Once the loop is reached, every matching name is attempted, in the order of the
  listing, whatever happened to the names before it. A failure of \<open>stat\<close> or of the copy for
  one name is caught and becomes one \<open>OPERATION_ERROR\<close> with the message
  \<open>Failed to copy {name}: {detail}\<close>, appended to the list. After the last attempt the
  result is the failure carrying the whole list in order when the list is not empty, and
  success otherwise.
\<close>

theorem batch_collects_per_file_errors:
  assumes "fs_access fs sourceDir = Inr u"
    and "fs_mkdir fs targetDir = Inr fs1"
    and "fs_readdir fs1 sourceDir = Inr files"
  shows "map fst (copy_trace sourceDir targetDir (filter is_global files) fs1) = filter is_global files \<and>
         copyGlobalRulesFiles fs sourceDir targetDir =
           (let attempts = copy_trace sourceDir targetDir (filter is_global files) fs1;
                errs = concat (map attempt_errors attempts)
            in (if errs = [] then SuccessResponse else FailedResponse errs,
                foldl attempt_state fs1 attempts))"
proof -
  have g: "(\<lambda>file. startsWith file ''g-'') = is_global" by (simp add: is_global_def fun_eq_iff)
  have "copyGlobalRulesFiles fs sourceDir targetDir =
           (let attempts = copy_trace sourceDir targetDir (filter is_global files) fs1;
                errs = concat (map attempt_errors attempts)
            in (if errs = [] then SuccessResponse else FailedResponse errs,
                foldl attempt_state fs1 attempts))"
  proof (cases "filter is_global files = []")
    case True
    then show ?thesis using assms by (simp add: copyGlobalRulesFiles_def g)
  next
    case False
    then show ?thesis using assms
      by (simp add: copyGlobalRulesFiles_def g Let_def copy_loop_trace[of _ _ _ "[]", simplified])
  qed
  then show ?thesis using copy_trace_names by blast
qed

theorem batch_collects_per_file_errors_witness:
  "fst (copyGlobalRulesFiles fs_c1 ''/g'' ''/p/.cursor/rules'') =
     FailedResponse
       [ErrorRecord OPERATION_ERROR
          (''Failed to copy g-b.mdc: EISDIR: illegal operation on a directory, copyfile ''
            @ quoted ''/g/g-b.mdc'' @ '' -> '' @ quoted ''/p/.cursor/rules/g-b.mdc''),
        ErrorRecord OPERATION_ERROR
          (''Failed to copy g-c.mdc: EACCES: permission denied, stat '' @ quoted ''/g/g-c.mdc'')] \<and>
   tree (snd (copyGlobalRulesFiles fs_c1 ''/g'' ''/p/.cursor/rules'')) =
     Dir [(''g'', Dir [(''g-a.mdc'', File ''A''), (''g-b.mdc'', File ''B''),
                       (''other.mdc'', File ''O''), (''g-c.mdc'', File ''C''),
                       (''g-d.mdc'', File ''D'')]),
          (''p'', Dir [(''.cursor'', Dir [(''rules'',
             Dir [(''g-b.mdc'', Dir []), (''g-a.mdc'', File ''A''), (''g-d.mdc'', File ''D'')])])])]"
proof -
  have a: "fs_access fs_c1 ''/g'' = Inr ()"
    by (simp add: fs_c1_def run_defs)
  have m: "fs_mkdir fs_c1 ''/p/.cursor/rules'' = Inr fs_c1"
    by (simp add: fs_c1_def run_defs)
  have r: "fs_readdir fs_c1 ''/g'' = Inr [''g-a.mdc'', ''g-b.mdc'', ''other.mdc'', ''g-c.mdc'', ''g-d.mdc'']"
    by (simp add: fs_c1_def run_defs)
  show ?thesis
    using batch_collects_per_file_errors[OF a m r]
    by (simp add: fs_c1_def run_defs attempt_errors_def attempt_state_def)
qed

text \<open>
  C5. For the synchronizer and for both handlers, the result is a success exactly when it
  carries no error: a failure always has a non-empty error list, a success never has one.
\<close>

theorem failure_iff_errors:
  "success (fst (copyGlobalRulesFiles fs sourceDir targetDir)) =
     (errors (fst (copyGlobalRulesFiles fs sourceDir targetDir)) = []) \<and>
   success (fst (handleLoadGlobalRules this h fs request)) =
     (errors (fst (handleLoadGlobalRules this h fs request)) = []) \<and>
   success (fst (handleSaveGlobalRules this h fs request)) =
     (errors (fst (handleSaveGlobalRules this h fs request)) = [])"
proof (intro conjI)
  show "success (fst (copyGlobalRulesFiles fs sourceDir targetDir)) =
     (errors (fst (copyGlobalRulesFiles fs sourceDir targetDir)) = [])"
    by (rule copy_response_ok)
  show "success (fst (handleLoadGlobalRules this h fs request)) =
     (errors (fst (handleLoadGlobalRules this h fs request)) = [])"
  proof (cases "loadConfig h fs")
    case (Inl e)
    then show ?thesis by (simp add: handleLoad_Inl)
  next
    case (Inr cfg)
    then show ?thesis
      using copy_response_ok[of fs "the (globalRulesSourceDir cfg)" "path_join [path request, ''.cursor'', ''rules'']"]
      by (simp add: handleLoad_Inr)
  qed
  show "success (fst (handleSaveGlobalRules this h fs request)) =
     (errors (fst (handleSaveGlobalRules this h fs request)) = [])"
  proof (cases "loadConfig h fs")
    case (Inl e)
    then show ?thesis by (simp add: handleSave_Inl)
  next
    case (Inr cfg)
    then show ?thesis
      using copy_response_ok[of fs "path_join [path request, ''.cursor'', ''rules'']" "the (globalRulesSourceDir cfg)"]
      by (simp add: handleSave_Inr)
  qed
qed

text \<open>
  C4. When the source directory of a synchronization call does not exist, the result is a
  failure with exactly one \<open>OPERATION_ERROR\<close>, whose message is
  \<open>Source directory does not exist: \<close> followed by the source path as given, and the file
  system is left as it was: the target directory is not created and no file is written.
\<close>

theorem missing_source_fails_without_mutation:
  assumes "\<not> path_exists fs sourceDir"
  shows "copyGlobalRulesFiles fs sourceDir targetDir =
           (FailedResponse
              [ErrorRecord OPERATION_ERROR (''Source directory does not exist: '' @ sourceDir)], fs)"
proof -
  have "\<exists>e. fs_access fs sourceDir = Inl e"
    using assms fs_access_iff[of fs sourceDir "()"] by (cases "fs_access fs sourceDir") auto
  then show ?thesis
    by (auto simp: copyGlobalRulesFiles_def operation_error_def)
qed

theorem missing_source_fails_without_mutation_witness:
  "\<not> path_exists fs_c4 ''/rules'' \<and>
   copyGlobalRulesFiles fs_c4 ''/rules'' ''/home/p/.cursor/rules'' =
     (FailedResponse
        [ErrorRecord OPERATION_ERROR ''Source directory does not exist: /rules''], fs_c4)"
proof -
  have h: "\<not> path_exists fs_c4 ''/rules''"
    by (simp add: path_exists_def node_at_def locate_def fs_c4_def norm_step_def)
  show ?thesis
    using h missing_source_fails_without_mutation[OF h, of "''/home/p/.cursor/rules''"] by simp
qed

text \<open>
  C9. When \<open>stat\<close> reports that a matching entry is not a regular file, its turn in the loop
  copies nothing and adds no error record: file system and error list go on to the next
  entry as they were. A run in which no matching entry is a regular file returns success
  and leaves the file system as \<open>mkdir\<close> left it.
\<close>

theorem non_regular_entry_is_skipped:
  "(fs_stat st (path_join [sourceDir, file]) = Inr s \<and> \<not> isFile s \<longrightarrow>
      copy_try st sourceDir targetDir file = Inr st \<and>
      copy_loop sourceDir targetDir (file # rest) (errs, st) =
        copy_loop sourceDir targetDir rest (errs, st)) \<and>
   (fs_access fs sourceDir = Inr u \<and> fs_mkdir fs targetDir = Inr fs1 \<and>
    fs_readdir fs1 sourceDir = Inr files \<and>
    (\<forall>f\<in>set (filter is_global files).
        \<exists>s. fs_stat fs1 (path_join [sourceDir, f]) = Inr s \<and> \<not> isFile s) \<longrightarrow>
      copyGlobalRulesFiles fs sourceDir targetDir = (SuccessResponse, fs1))"
proof (intro conjI impI)
  assume "fs_stat st (path_join [sourceDir, file]) = Inr s \<and> \<not> isFile s"
  then show "copy_try st sourceDir targetDir file = Inr st"
    and "copy_loop sourceDir targetDir (file # rest) (errs, st) =
        copy_loop sourceDir targetDir rest (errs, st)"
    by (simp_all add: copy_try_def)
next
  assume h: "fs_access fs sourceDir = Inr u \<and> fs_mkdir fs targetDir = Inr fs1 \<and>
    fs_readdir fs1 sourceDir = Inr files \<and>
    (\<forall>f\<in>set (filter is_global files).
        \<exists>s. fs_stat fs1 (path_join [sourceDir, f]) = Inr s \<and> \<not> isFile s)"
  then have "\<forall>f\<in>set (filter is_global files). copy_try fs1 sourceDir targetDir f = Inr fs1"
    by (auto simp: copy_try_def)
  then have l: "copy_loop sourceDir targetDir (filter is_global files) ([], fs1) = ([], fs1)"
    by (rule copy_loop_noop)
  have g: "(\<lambda>file. startsWith file ''g-'') = is_global" by (simp add: is_global_def fun_eq_iff)
  show "copyGlobalRulesFiles fs sourceDir targetDir = (SuccessResponse, fs1)"
    using h l by (simp add: copyGlobalRulesFiles_def g Let_def)
qed

theorem non_regular_entry_is_skipped_witness:
  "fs_stat fs_c9 (path_join [''/g'', ''g-sub'']) = Inr \<lparr>isFile = False, isDirectory = True\<rparr> \<and>
   copy_try fs_c9 ''/g'' ''/t'' ''g-sub'' = Inr fs_c9 \<and>
   fst (copyGlobalRulesFiles fs_c9 ''/g'' ''/t'') = SuccessResponse \<and>
   tree (snd (copyGlobalRulesFiles fs_c9 ''/g'' ''/t'')) =
     Dir [(''g'', Dir [(''g-sub'', Dir [(''g-x.mdc'', File ''X'')]), (''g-a.mdc'', File ''A'')]),
          (''t'', Dir [(''g-a.mdc'', File ''A'')])] \<and>
   fs_readdir fs_c9_dirs ''/g'' = Inr [''g-sub'', ''readme.md''] \<and>
   copyGlobalRulesFiles fs_c9_dirs ''/g'' ''/t'' = (SuccessResponse, fs_c9_dirs)"
proof -
  note T = non_regular_entry_is_skipped
  have s: "fs_stat fs_c9 (path_join [''/g'', ''g-sub'']) = Inr \<lparr>isFile = False, isDirectory = True\<rparr>"
    by (simp add: fs_c9_def run_defs)
  have a: "fs_access fs_c9 ''/g'' = Inr ()" by (simp add: fs_c9_def run_defs)
  have m: "fs_mkdir fs_c9 ''/t'' = Inr fs_c9" by (simp add: fs_c9_def run_defs)
  have r: "fs_readdir fs_c9 ''/g'' = Inr [''g-sub'', ''g-a.mdc'']" by (simp add: fs_c9_def run_defs)
  have skip: "copy_try fs_c9 ''/g'' ''/t'' ''g-sub'' = Inr fs_c9 \<and>
      copy_loop ''/g'' ''/t'' [''g-sub'', ''g-a.mdc''] ([], fs_c9) = copy_loop ''/g'' ''/t'' [''g-a.mdc''] ([], fs_c9)"
    using T[THEN conjunct1, rule_format, of fs_c9 "''/g''" "''g-sub''" "\<lparr>isFile = False, isDirectory = True\<rparr>"
        "''/t''" "[''g-a.mdc'']" "[]", OF conjI[OF s]]
    by simp
  moreover have "copy_loop ''/g'' ''/t'' [''g-a.mdc''] ([], fs_c9) =
      ([], fs_c9\<lparr>tree := Dir [(''g'', Dir [(''g-sub'', Dir [(''g-x.mdc'', File ''X'')]), (''g-a.mdc'', File ''A'')]),
          (''t'', Dir [(''g-a.mdc'', File ''A'')])]\<rparr>)"
    by (simp add: fs_c9_def run_defs)
  ultimately have run: "copyGlobalRulesFiles fs_c9 ''/g'' ''/t'' =
      (SuccessResponse, fs_c9\<lparr>tree := Dir [(''g'', Dir [(''g-sub'', Dir [(''g-x.mdc'', File ''X'')]), (''g-a.mdc'', File ''A'')]),
          (''t'', Dir [(''g-a.mdc'', File ''A'')])]\<rparr>)"
    using a m r by (simp add: copyGlobalRulesFiles_def startsWith_def)
  have a2: "fs_access fs_c9_dirs ''/g'' = Inr ()" by (simp add: fs_c9_dirs_def run_defs)
  have m2: "fs_mkdir fs_c9_dirs ''/t'' = Inr fs_c9_dirs" by (simp add: fs_c9_dirs_def run_defs)
  have r2: "fs_readdir fs_c9_dirs ''/g'' = Inr [''g-sub'', ''readme.md'']" by (simp add: fs_c9_dirs_def run_defs)
  have s2: "fs_stat fs_c9_dirs (path_join [''/g'', ''g-sub'']) = Inr \<lparr>isFile = False, isDirectory = True\<rparr>"
    by (simp add: fs_c9_dirs_def run_defs)
  have all: "\<forall>f\<in>set (filter is_global [''g-sub'', ''readme.md'']).
        \<exists>s. fs_stat fs_c9_dirs (path_join [''/g'', f]) = Inr s \<and> \<not> isFile s"
    using s2 by (simp add: is_global_def startsWith_def)
  have run2: "copyGlobalRulesFiles fs_c9_dirs ''/g'' ''/t'' = (SuccessResponse, fs_c9_dirs)"
    using T[THEN conjunct2, rule_format, of fs_c9_dirs "''/g''" "()" "''/t''" fs_c9_dirs "[''g-sub'', ''readme.md'']"]
      a2 m2 r2 all by blast
  show ?thesis using s skip run r2 run2 by simp
qed




text \<open>
  C3. When the configuration store is missing, malformed, without the field
  \<open>globalRulesSourceDir\<close>, blank after trimming, or names a directory that does not exist,
  both handlers return a failure whose only error is one \<open>CONFIG_PARSING_ERROR\<close>, and the file
  system is unchanged: the synchronization is not run.
\<close>

theorem bad_config_fails_before_sync:
  assumes "config_store_bad h fs"
  shows "\<exists>m. handleLoadGlobalRules this h fs request =
               (FailedResponse [ErrorRecord CONFIG_PARSING_ERROR m], this, fs) \<and>
             handleSaveGlobalRules this h fs request' =
               (FailedResponse [ErrorRecord CONFIG_PARSING_ERROR m], this, fs)"
proof -
  from config_store_bad_fails[OF assms] obtain e where e: "loadConfig h fs = Inl e" by blast
  have "e = ErrorRecord CONFIG_PARSING_ERROR (message e)"
    using loadConfig_etype[OF e] by (cases e) simp
  then show ?thesis using handleLoad_Inl[OF e] handleSave_Inl[OF e] by metis
qed

theorem bad_config_fails_before_sync_witness:
  "config_store_bad host_ex fs_nocfg \<and>
   handleLoadGlobalRules new_GlobalRulesServer host_ex fs_nocfg \<lparr>path = ''/p''\<rparr> =
     (FailedResponse [ErrorRecord CONFIG_PARSING_ERROR
        ''Configuration file /opt/global-mdc/config.json not found''],
      new_GlobalRulesServer, fs_nocfg) \<and>
   config_store_bad host_ex (fs_cfg ''{ globalRulesSourceDir'') \<and>
   handleLoadGlobalRules new_GlobalRulesServer host_ex (fs_cfg ''{ globalRulesSourceDir'') \<lparr>path = ''/p''\<rparr> =
     (FailedResponse [ErrorRecord CONFIG_PARSING_ERROR
        ''Failed to parse config.json: Unexpected token''],
      new_GlobalRulesServer, fs_cfg ''{ globalRulesSourceDir'') \<and>
   config_store_bad host_ex (fs_cfg ''{}'') \<and>
   handleSaveGlobalRules new_GlobalRulesServer host_ex (fs_cfg ''{}'') \<lparr>path = ''/p''\<rparr> =
     (FailedResponse [ErrorRecord CONFIG_PARSING_ERROR
        ''globalRulesSourceDir is not set or empty in config.json''],
      new_GlobalRulesServer, fs_cfg ''{}'') \<and>
   config_store_bad host_ex (fs_cfg (config_text ''  '')) \<and>
   handleLoadGlobalRules new_GlobalRulesServer host_ex (fs_cfg (config_text ''  '')) \<lparr>path = ''/p''\<rparr> =
     (FailedResponse [ErrorRecord CONFIG_PARSING_ERROR
        ''globalRulesSourceDir is not set or empty in config.json''],
      new_GlobalRulesServer, fs_cfg (config_text ''  '')) \<and>
   config_store_bad host_ex (fs_cfg (config_text ''/gone'')) \<and>
   handleSaveGlobalRules new_GlobalRulesServer host_ex (fs_cfg (config_text ''/gone'')) \<lparr>path = ''/p''\<rparr> =
     (FailedResponse [ErrorRecord CONFIG_PARSING_ERROR
        ''Global rules directory does not exist: /gone''],
      new_GlobalRulesServer, fs_cfg (config_text ''/gone''))"
proof -
  note T = bad_config_fails_before_sync[of host_ex _ new_GlobalRulesServer "\<lparr>path = ''/p''\<rparr>" "\<lparr>path = ''/p''\<rparr>"]
  have 1: "handleLoadGlobalRules new_GlobalRulesServer host_ex fs_nocfg \<lparr>path = ''/p''\<rparr> =
     (FailedResponse [ErrorRecord CONFIG_PARSING_ERROR
        ''Configuration file /opt/global-mdc/config.json not found''], new_GlobalRulesServer, fs_nocfg)"
    using T[OF bad_stores(1)] handleLoad_Inl[OF loadConfig_missing, of new_GlobalRulesServer "\<lparr>path = ''/p''\<rparr>"]
    by simp
  have 2: "handleLoadGlobalRules new_GlobalRulesServer host_ex (fs_cfg ''{ globalRulesSourceDir'') \<lparr>path = ''/p''\<rparr> =
     (FailedResponse [ErrorRecord CONFIG_PARSING_ERROR
        ''Failed to parse config.json: Unexpected token''],
      new_GlobalRulesServer, fs_cfg ''{ globalRulesSourceDir'')"
    using T[OF bad_stores(2)] handleLoad_Inl[OF loadConfig_malformed, of new_GlobalRulesServer "\<lparr>path = ''/p''\<rparr>"]
    by simp
  have 3: "handleSaveGlobalRules new_GlobalRulesServer host_ex (fs_cfg ''{}'') \<lparr>path = ''/p''\<rparr> =
     (FailedResponse [ErrorRecord CONFIG_PARSING_ERROR
        ''globalRulesSourceDir is not set or empty in config.json''],
      new_GlobalRulesServer, fs_cfg ''{}'')"
    using T[OF bad_stores(3)] handleSave_Inl[OF loadConfig_no_field, of new_GlobalRulesServer "\<lparr>path = ''/p''\<rparr>"]
    by simp
  have 4: "handleLoadGlobalRules new_GlobalRulesServer host_ex (fs_cfg (config_text ''  '')) \<lparr>path = ''/p''\<rparr> =
     (FailedResponse [ErrorRecord CONFIG_PARSING_ERROR
        ''globalRulesSourceDir is not set or empty in config.json''],
      new_GlobalRulesServer, fs_cfg (config_text ''  ''))"
    using T[OF bad_stores(4)] handleLoad_Inl[OF loadConfig_blank, of new_GlobalRulesServer "\<lparr>path = ''/p''\<rparr>"]
    by simp
  have 5: "handleSaveGlobalRules new_GlobalRulesServer host_ex (fs_cfg (config_text ''/gone'')) \<lparr>path = ''/p''\<rparr> =
     (FailedResponse [ErrorRecord CONFIG_PARSING_ERROR
        ''Global rules directory does not exist: /gone''],
      new_GlobalRulesServer, fs_cfg (config_text ''/gone''))"
    using T[OF bad_stores(5)] handleSave_Inl[OF loadConfig_gone, of new_GlobalRulesServer "\<lparr>path = ''/p''\<rparr>"]
    by simp
  show ?thesis using bad_stores 1 2 3 4 5 by simp
qed

text \<open>
  C10, as stated: after an invocation has loaded the configuration, later invocations reuse
  a cached value instead of reading the store again. The code never assigns the field
  \<open>config\<close>: a first invocation succeeds and leaves the server as constructed; the store is
  then edited to a blank value, and the second invocation on the same server fails with the
  configuration error of the edited store.
\<close>

theorem config_cache_counterexample:
  "handleLoadGlobalRules new_GlobalRulesServer host_ex (fs_cfg (config_text ''/rules'')) \<lparr>path = ''/p''\<rparr> =
     (SuccessResponse, new_GlobalRulesServer, fs_c10_after_load) \<and>
   config new_GlobalRulesServer = \<lparr>globalRulesSourceDir = None\<rparr> \<and>
   write_file (tree fs_c10_after_load) [''opt'', ''global-mdc'', ''config.json''] (config_text ''  '') =
     Inr (tree fs_c10_edited) \<and>
   handleLoadGlobalRules new_GlobalRulesServer host_ex fs_c10_edited \<lparr>path = ''/p''\<rparr> =
     (FailedResponse [ErrorRecord CONFIG_PARSING_ERROR
        ''globalRulesSourceDir is not set or empty in config.json''],
      new_GlobalRulesServer, fs_c10_edited)"
proof -
  have "write_file (tree fs_c10_after_load) [''opt'', ''global-mdc'', ''config.json''] (config_text ''  '') =
     Inr (tree fs_c10_edited)"
    by (simp add: fs_c10_after_load_def fs_c10_edited_def config_text_def)
  then show ?thesis
    using load_c10[of new_GlobalRulesServer] handleLoad_Inl[OF loadConfig_edited]
    by (simp add: new_GlobalRulesServer_def)
qed

text \<open>
  C10, amended: nothing is cached. Every invocation of either handler calls \<open>loadConfig\<close> on
  the file system of that moment: it fails with that call's error, or else answers as a
  freshly constructed server would; the server object is returned as it was.
\<close>

theorem config_is_read_on_every_call:
  "handleLoadGlobalRules this h fs request =
     (case loadConfig h fs of
        Inl e \<Rightarrow> (FailedResponse [e], this, fs)
      | Inr cfg \<Rightarrow>
          (fst (handleLoadGlobalRules new_GlobalRulesServer h fs request), this,
           snd (snd (handleLoadGlobalRules new_GlobalRulesServer h fs request)))) \<and>
   handleSaveGlobalRules this h fs request =
     (case loadConfig h fs of
        Inl e \<Rightarrow> (FailedResponse [e], this, fs)
      | Inr cfg \<Rightarrow>
          (fst (handleSaveGlobalRules new_GlobalRulesServer h fs request), this,
           snd (snd (handleSaveGlobalRules new_GlobalRulesServer h fs request))))"
  by (cases "loadConfig h fs")
     (simp_all add: handleLoad_Inl handleSave_Inl handleLoad_Inr handleSave_Inr)

text \<open>
  C2. On a well-formed file system, after a successful synchronization every entry of the
  source listing whose name starts with \<open>g-\<close> and which is a regular file stands in the
  target directory under the same name with the same content, whatever stood there before;
  for every other entry of the source listing, the target holds under that name what it held
  before. \<open>handleLoadGlobalRules\<close> synchronizes from the configured directory to
  \<open>{path}/.cursor/rules\<close>, \<open>handleSaveGlobalRules\<close> the other way round.
\<close>

theorem successful_sync_copies_exactly_global_files:
  assumes "wf_fs fs" and "copyGlobalRulesFiles fs sourceDir targetDir = (SuccessResponse, fs')"
  shows "(\<forall>n\<in>set (names_at (tree fs) (locate fs sourceDir)).
            file_of fs' (path_join [targetDir, n]) =
              (if is_global n \<and> file_of fs (path_join [sourceDir, n]) \<noteq> None
               then file_of fs (path_join [sourceDir, n])
               else file_of fs (path_join [targetDir, n]))) \<and>
         (\<forall>cfg. loadConfig h fs = Inr cfg \<longrightarrow>
            (\<exists>g. configured_dir h fs = Some g \<and>
                 handleLoadGlobalRules this h fs request =
                   (fst (copyGlobalRulesFiles fs g (path_join [path request, ''.cursor'', ''rules''])), this,
                    snd (copyGlobalRulesFiles fs g (path_join [path request, ''.cursor'', ''rules'']))) \<and>
                 handleSaveGlobalRules this h fs request =
                   (fst (copyGlobalRulesFiles fs (path_join [path request, ''.cursor'', ''rules'']) g), this,
                    snd (copyGlobalRulesFiles fs (path_join [path request, ''.cursor'', ''rules'']) g))))"
proof (intro conjI ballI allI impI)
  fix n assume n: "n \<in> set (names_at (tree fs) (locate fs sourceDir))"
  have v: "valid_name n" using wf_names_at[of "tree fs" "locate fs sourceDir"] assms(1) n
    by (simp add: wf_fs_def)
  note E = sync_effect[OF assms]
  have lS: "locate fs' sourceDir = locate fs sourceDir" and lT: "locate fs' targetDir = locate fs targetDir"
    by (rule locate_cong[OF E(1)])+
  have fS: "file_of fs (path_join [sourceDir, n]) = file_at (tree fs) (locate fs sourceDir @ [n])"
    and fT: "file_of fs (path_join [targetDir, n]) = file_at (tree fs) (locate fs targetDir @ [n])"
    and fT': "file_of fs' (path_join [targetDir, n]) = file_at (tree fs') (locate fs targetDir @ [n])"
    using file_of_join[OF v] lT by simp_all
  from sync_success[OF assms] obtain fs1 files where
    m: "fs_mkdir fs targetDir = Inr fs1" and rd: "fs_readdir fs1 sourceDir = Inr files"
    and sy: "\<forall>n\<in>set (filter is_global files). in_sync fs' sourceDir targetDir n"
    by blast
  note M = fs_mkdir_Inr[OF m]
  show "file_of fs' (path_join [targetDir, n]) =
              (if is_global n \<and> file_of fs (path_join [sourceDir, n]) \<noteq> None
               then file_of fs (path_join [sourceDir, n])
               else file_of fs (path_join [targetDir, n]))"
  proof (cases "is_global n \<and> file_of fs (path_join [sourceDir, n]) \<noteq> None")
    case True
    then obtain c where c: "file_at (tree fs) (locate fs sourceDir @ [n]) = Some c" and g: "is_global n"
      using fS by auto
    have "file_at (tree fs1) (locate fs1 sourceDir @ [n]) = Some c"
      using c M(5) locate_cong[OF M(1), of sourceDir] by simp
    then have "n \<in> set (names_at (tree fs1) (locate fs1 sourceDir))" by (rule file_in_names)
    then have "n \<in> set (filter is_global files)" using rd g by (simp add: fs_readdir_iff)
    then have s: "in_sync fs' sourceDir targetDir n" using sy by blast
    have c': "file_at (tree fs') (locate fs sourceDir @ [n]) = Some c"
      using E(4)[rule_format, of "locate fs sourceDir @ [n]"] c by auto
    then have "\<not> dir_at (tree fs') (locate fs sourceDir @ [n])" by (rule file_not_dir)
    with s c' have "file_at (tree fs') (locate fs targetDir @ [n]) = Some c"
      by (auto simp: in_sync_def lS lT)
    then show ?thesis using True c fS fT' by simp
  next
    case False
    have "file_at (tree fs') (locate fs targetDir @ [n]) = file_at (tree fs) (locate fs targetDir @ [n])"
      using E(4)[rule_format, of "locate fs targetDir @ [n]"] False fS by auto
    then have "file_of fs' (path_join [targetDir, n]) = file_of fs (path_join [targetDir, n])"
      using fT fT' by simp
    then show ?thesis using False by (simp only: if_False)
  qed
next
  fix cfg assume l: "loadConfig h fs = Inr cfg"
  from loadConfig_configured[OF l] obtain g where g: "configured_dir h fs = Some g"
    and c: "globalRulesSourceDir cfg = Some g" by blast
  show "\<exists>g. configured_dir h fs = Some g \<and>
                 handleLoadGlobalRules this h fs request =
                   (fst (copyGlobalRulesFiles fs g (path_join [path request, ''.cursor'', ''rules''])), this,
                    snd (copyGlobalRulesFiles fs g (path_join [path request, ''.cursor'', ''rules'']))) \<and>
                 handleSaveGlobalRules this h fs request =
                   (fst (copyGlobalRulesFiles fs (path_join [path request, ''.cursor'', ''rules'']) g), this,
                    snd (copyGlobalRulesFiles fs (path_join [path request, ''.cursor'', ''rules'']) g))"
    using g c handleLoad_Inr[OF l, of this request] handleSave_Inr[OF l, of this request] by simp
qed

theorem successful_sync_copies_exactly_global_files_witness:
  "wf_fs fs_c2 \<and>
   copyGlobalRulesFiles fs_c2 ''/rules'' ''/p/.cursor/rules'' = (SuccessResponse, fs_c2_after) \<and>
   file_of fs_c2_after ''/p/.cursor/rules/g-a.mdc'' = Some ''A'' \<and>
   file_of fs_c2_after ''/p/.cursor/rules/g-b.mdc'' = Some ''B'' \<and>
   file_of fs_c2_after ''/p/.cursor/rules/other.mdc'' = Some ''keep'' \<and>
   file_of fs_c2_after ''/p/.cursor/rules/g-sub'' = None \<and>
   configured_dir host_ex (fs_cfg (config_text ''/rules'')) = Some ''/rules'' \<and>
   handleLoadGlobalRules new_GlobalRulesServer host_ex (fs_cfg (config_text ''/rules'')) \<lparr>path = ''/p''\<rparr> =
     (SuccessResponse, new_GlobalRulesServer, fs_c10_after_load) \<and>
   handleSaveGlobalRules new_GlobalRulesServer host_ex fs_c8 \<lparr>path = ''/p''\<rparr> =
     (SuccessResponse, new_GlobalRulesServer, fs_c8_after)"
proof -
  note T = successful_sync_copies_exactly_global_files[OF wf_fs_c2 sync_c2,
      of host_ex new_GlobalRulesServer "\<lparr>path = ''/p''\<rparr>"]
  from T have P: "\<forall>n\<in>set (names_at (tree fs_c2) (locate fs_c2 ''/rules'')).
            file_of fs_c2_after (path_join [''/p/.cursor/rules'', n]) =
              (if is_global n \<and> file_of fs_c2 (path_join [''/rules'', n]) \<noteq> None
               then file_of fs_c2 (path_join [''/rules'', n])
               else file_of fs_c2 (path_join [''/p/.cursor/rules'', n]))" by (rule conjunct1)
  have a: "file_of fs_c2_after ''/p/.cursor/rules/g-a.mdc'' = Some ''A''"
    using P[rule_format, of "''g-a.mdc''"] by (simp add: names_c2) (simp add: fs_c2_def file_of_def run_defs)
  have b: "file_of fs_c2_after ''/p/.cursor/rules/g-b.mdc'' = Some ''B''"
    using P[rule_format, of "''g-b.mdc''"] by (simp add: names_c2) (simp add: fs_c2_def file_of_def run_defs)
  have o: "file_of fs_c2_after ''/p/.cursor/rules/other.mdc'' = Some ''keep''"
    using P[rule_format, of "''other.mdc''"] by (simp add: names_c2) (simp add: fs_c2_def file_of_def run_defs)
  have s: "file_of fs_c2_after ''/p/.cursor/rules/g-sub'' = None"
    using P[rule_format, of "''g-sub''"] by (simp add: names_c2) (simp add: fs_c2_def file_of_def run_defs)
  have c: "configured_dir host_ex (fs_cfg (config_text ''/rules'')) = Some ''/rules''"
    by (simp add: configured_dir_def host_ex_def fs_cfg_def config_text_def config_path_ex run_defs)
  show ?thesis
    using wf_fs_c2 sync_c2 a b o s c load_c10[of new_GlobalRulesServer] save_c8[of new_GlobalRulesServer]
    by simp
qed

text \<open>
  C7. On a well-formed file system, whatever the result of a synchronization: the regular
  files of the source directory are as before; every regular file anywhere is as before,
  unless it stands in the target directory under the name of a copied match, and then it
  holds the content of that source file; no directory is removed, and the only new
  directories are the target directory and its ancestors.
\<close>

theorem sync_only_adds_target_entries:
  assumes "wf_fs fs" and "copyGlobalRulesFiles fs sourceDir targetDir = (r, fs')"
  shows "(\<forall>n. file_at (tree fs') (locate fs sourceDir @ [n]) = file_at (tree fs) (locate fs sourceDir @ [n])) \<and>
         (\<forall>l. file_at (tree fs') l = file_at (tree fs) l \<or>
              (\<exists>n. is_global n \<and> l = locate fs targetDir @ [n] \<and>
                   file_at (tree fs) (locate fs sourceDir @ [n]) \<noteq> None \<and>
                   file_at (tree fs') l = file_at (tree fs) (locate fs sourceDir @ [n]))) \<and>
         (\<forall>l. dir_at (tree fs) l \<longrightarrow> dir_at (tree fs') l) \<and>
         (\<forall>l. dir_at (tree fs') l \<longrightarrow> dir_at (tree fs) l \<or> prefix l (locate fs targetDir))"
proof -
  note E = sync_effect[OF assms]
  have src: "\<forall>n. file_at (tree fs') (locate fs sourceDir @ [n]) = file_at (tree fs) (locate fs sourceDir @ [n])"
  proof
    fix n
    from E(4)[rule_format, of "locate fs sourceDir @ [n]"]
    show "file_at (tree fs') (locate fs sourceDir @ [n]) = file_at (tree fs) (locate fs sourceDir @ [n])"
      by auto
  qed
  have fl: "\<forall>l. file_at (tree fs') l = file_at (tree fs) l \<or>
              (\<exists>n. is_global n \<and> l = locate fs targetDir @ [n] \<and>
                   file_at (tree fs) (locate fs sourceDir @ [n]) \<noteq> None \<and>
                   file_at (tree fs') l = file_at (tree fs) (locate fs sourceDir @ [n]))"
    using E(4) by blast
  show ?thesis using src fl E(3) by simp
qed

theorem sync_only_adds_target_entries_witness:
  "wf_fs fs_c2 \<and>
   copyGlobalRulesFiles fs_c2 ''/rules'' ''/p/.cursor/rules'' = (SuccessResponse, fs_c2_after) \<and>
   file_at (tree fs_c2_after) [''rules'', ''g-a.mdc''] = Some ''A'' \<and>
   file_at (tree fs_c2_after) [''rules'', ''other.mdc''] = Some ''O'' \<and>
   file_at (tree fs_c2_after) [''p'', ''.cursor'', ''rules'', ''other.mdc''] = Some ''keep'' \<and>
   dir_at (tree fs_c2_after) [''rules'', ''g-sub'']"
proof -
  note T = sync_only_adds_target_entries[OF wf_fs_c2 sync_c2]
  from T have S: "\<forall>n. file_at (tree fs_c2_after) (locate fs_c2 ''/rules'' @ [n]) =
      file_at (tree fs_c2) (locate fs_c2 ''/rules'' @ [n])" by (elim conjE)
  from T have F: "\<forall>l. file_at (tree fs_c2_after) l = file_at (tree fs_c2) l \<or>
              (\<exists>n. is_global n \<and> l = locate fs_c2 ''/p/.cursor/rules'' @ [n] \<and>
                   file_at (tree fs_c2) (locate fs_c2 ''/rules'' @ [n]) \<noteq> None \<and>
                   file_at (tree fs_c2_after) l = file_at (tree fs_c2) (locate fs_c2 ''/rules'' @ [n]))"
    by (elim conjE)
  from T have D: "\<forall>l. dir_at (tree fs_c2) l \<longrightarrow> dir_at (tree fs_c2_after) l" by (elim conjE)
  have a: "file_at (tree fs_c2_after) [''rules'', ''g-a.mdc''] = Some ''A''"
    using S[rule_format, of "''g-a.mdc''"] by (simp add: locate_c2) (simp add: fs_c2_def)
  have o: "file_at (tree fs_c2_after) [''rules'', ''other.mdc''] = Some ''O''"
    using S[rule_format, of "''other.mdc''"] by (simp add: locate_c2) (simp add: fs_c2_def)
  have "\<not> is_global ''other.mdc''" by (simp add: is_global_def startsWith_def)
  then have "file_at (tree fs_c2_after) [''p'', ''.cursor'', ''rules'', ''other.mdc''] =
      file_at (tree fs_c2) [''p'', ''.cursor'', ''rules'', ''other.mdc'']"
    using F[rule_format, of "[''p'', ''.cursor'', ''rules'', ''other.mdc'']"] by (auto simp: locate_c2)
  then have k: "file_at (tree fs_c2_after) [''p'', ''.cursor'', ''rules'', ''other.mdc''] = Some ''keep''"
    by (simp add: fs_c2_def)
  have "dir_at (tree fs_c2) [''rules'', ''g-sub'']" by (simp add: fs_c2_def)
  then have d: "dir_at (tree fs_c2_after) [''rules'', ''g-sub'']" using D by blast
  show ?thesis using wf_fs_c2 sync_c2 a o k d by simp
qed




end
